theory Spec2Isabelle
  imports Complex_Main "HOL-Library.Sublist" "HOL-Library.List_Lexorder" "HOL-Library.Char_ord"
begin

section \<open>Python primitives used by the scripts\<close>

text \<open>
  The repository holds four Python scripts: \<^verbatim>\<open>pptx_audio_transc_onefile.py\<close> (one merged
  transcript per presentation), \<^verbatim>\<open>pptx_audio_transcriber.py\<close> (one output pair per clip),
  \<^verbatim>\<open>transcribe.py\<close> (interactive, works on an unzipped folder) and \<^verbatim>\<open>test_zip.py\<close> (a copy
  of the unzipping step of \<^verbatim>\<open>transcribe.py\<close>, which precedes the functions modelled here).
  Python \<^verbatim>\<open>str\<close> is modelled as \<^typ>\<open>string\<close>, Python \<^verbatim>\<open>int\<close> as \<^typ>\<open>int\<close> or
  \<^typ>\<open>nat\<close>, and a Python \<^verbatim>\<open>float\<close> by the \<^typ>\<open>real\<close> number it denotes. Where the program
  prints a float, in \<^verbatim>\<open>format_time\<close>, the model rounds as the machine does: the value
  printed is the double nearest to the real argument, and the product that gives the
  milliseconds is rounded to a double. The running offset of the merge is added up exactly.
  Infinities and NaN are not modelled.
\<close>

definition digit_char :: "nat \<Rightarrow> char" where
  "digit_char d = ''0123456789'' ! d"

text \<open>\<^verbatim>\<open>str(n)\<close> for a non-negative integer: its decimal digits.\<close>

fun str_nat :: "nat \<Rightarrow> string" where
  "str_nat n = (if n < 10 then [digit_char n] else str_nat (n div 10) @ [digit_char (n mod 10)])"

declare str_nat.simps [simp del]

text \<open>
  The format specification \<^verbatim>\<open>{i:0w}\<close> of an f-string: the decimal digits of \<open>i\<close>, padded
  with zeros on the left (after the sign) to at least \<open>w\<close> characters, never cut.
\<close>

definition format_zero :: "nat \<Rightarrow> int \<Rightarrow> string" where
  "format_zero w i =
     (if i < 0
      then CHR ''-'' # replicate (w - 1 - length (str_nat (nat (- i)))) CHR ''0''
             @ str_nat (nat (- i))
      else replicate (w - length (str_nat (nat i))) CHR ''0'' @ str_nat (nat i))"

text \<open>
  The double nearest to a real number, ties to the even mantissa (IEEE 754 binary64): the
  number is a multiple of the unit in the last place of its binade, 52 binary places below
  its leading bit, and of \<open>2 powi (- 1074)\<close> below the normal range. \<open>bit_length n\<close> is the
  number of binary digits of a positive integer, \<open>exponent_of x\<close> the position of the leading
  bit of a positive real. The upper end of the range (overflow to infinity) is not modelled.
\<close>

function bit_length :: "int \<Rightarrow> nat" where
  "bit_length n = (if n \<le> 0 then 0 else Suc (bit_length (n div 2)))"
  by pat_completeness auto
termination
  by (relation "measure nat") auto

declare bit_length.simps [simp del]

definition exponent_of :: "real \<Rightarrow> int" where
  "exponent_of x =
     (if 1 \<le> x then int (bit_length \<lfloor>x\<rfloor>) - 1 else - int (bit_length (\<lceil>1 / x\<rceil> - 1)))"

definition round_half_even :: "real \<Rightarrow> int" where
  "round_half_even z =
     (let n = \<lfloor>z\<rfloor>; r = z - of_int n
      in if r < 1 / 2 then n else if 1 / 2 < r then n + 1 else if even n then n else n + 1)"

definition round_double :: "real \<Rightarrow> real" where
  "round_double x =
     (if x = 0 then 0
      else let a = \<bar>x\<bar>;
               e = max (exponent_of a) (- 1022);
               ulp = 2 powi (e - 52)
           in sgn x * (ulp * of_int (round_half_even (a / ulp))))"

text \<open>
  \<^verbatim>\<open>x % 1\<close> on a float: the remainder of the division is exact; for a negative \<open>x\<close> the
  machine then adds 1 to a remainder that is not zero, and rounds the sum.
\<close>

definition float_mod_1 :: "real \<Rightarrow> real" where
  "float_mod_1 x = (if 0 \<le> x then x - of_int \<lfloor>x\<rfloor> else round_double (x - of_int \<lfloor>x\<rfloor>))"

text \<open>\<^verbatim>\<open>int(x)\<close> on a float truncates towards zero.\<close>

definition int_of_float :: "real \<Rightarrow> int" where
  "int_of_float x = (if 0 \<le> x then \<lfloor>x\<rfloor> else \<lceil>x\<rceil>)"

text \<open>
  \<^verbatim>\<open>str.strip()\<close> removes leading and trailing whitespace. A \<^typ>\<open>char\<close> is read as a code
  point below 256; the whitespace code points in that range are listed.
\<close>

definition py_isspace :: "char \<Rightarrow> bool" where
  "py_isspace c = (of_char c \<in> set [9, 10, 11, 12, 13, 28, 29, 30, 31, 32, 133, 160 :: nat])"

definition strip :: "string \<Rightarrow> string" where
  "strip s = rev (dropWhile py_isspace (rev (dropWhile py_isspace s)))"

text \<open>\<^verbatim>\<open>s.endswith((e1, e2, ...))\<close>: some element of the tuple is a suffix of \<open>s\<close>.\<close>

definition endswith_any :: "string \<Rightarrow> string list \<Rightarrow> bool" where
  "endswith_any s exts = list_ex (\<lambda>e. suffix e s) exts"

text \<open>\<^verbatim>\<open>s.split(c)\<close> for a single separator character.\<close>

fun split_on :: "char \<Rightarrow> string \<Rightarrow> string list" where
  "split_on c [] = [[]]"
| "split_on c (x # xs) =
     (if x = c then [] # split_on c xs
      else (case split_on c xs of [] \<Rightarrow> [[x]] | w # ws \<Rightarrow> (x # w) # ws))"

text \<open>
  \<^verbatim>\<open>s.replace(old, new)\<close>: every non-overlapping occurrence of \<open>old\<close>, found from the left,
  is replaced by \<open>new\<close>. For the empty \<open>old\<close> Python puts \<open>new\<close> before every character and
  at the end.
\<close>

function str_replace :: "string \<Rightarrow> string \<Rightarrow> string \<Rightarrow> string" where
  "str_replace old new s =
     (if old = [] then new @ concat (map (\<lambda>c. c # new) s)
      else if s = [] then []
      else if prefix old s then new @ str_replace old new (drop (length old) s)
      else hd s # str_replace old new (tl s))"
  by pat_completeness auto
termination
  by (relation "measure (\<lambda>(old, new, s). length s)") auto

declare str_replace.simps [simp del]

text \<open>
  \<^verbatim>\<open>os.path.join(a, b)\<close> on POSIX for two components: an absolute \<open>b\<close> replaces \<open>a\<close>;
  otherwise the two are joined by one slash unless \<open>a\<close> is empty or already ends in one.
\<close>

definition os_path_join :: "string \<Rightarrow> string \<Rightarrow> string" where
  "os_path_join a b =
     (if prefix ''/'' b then b
      else if a = [] \<or> suffix ''/'' a then a @ b
      else a @ ''/'' @ b)"

section \<open>Timestamps\<close>

text \<open>
  \<^verbatim>\<open>format_time\<close> of \<^verbatim>\<open>pptx_audio_transc_onefile.py\<close> (lines 90-96); the function of the same
  name in \<^verbatim>\<open>pptx_audio_transcriber.py\<close> is the same text. The parameter is a float: a real
  argument stands for the double nearest to it, as a decimal literal or the exact sum of two
  floats does in the program.
\<close>

definition format_time :: "real \<Rightarrow> string" where
  "format_time seconds =
     (let seconds = round_double seconds;
          millis = int_of_float (round_double (float_mod_1 seconds * 1000));
          seconds = int_of_float seconds;
          minutes = seconds div 60;
          hours = minutes div 60
      in format_zero 2 hours @ '':'' @ format_zero 2 (minutes mod 60) @ '':''
         @ format_zero 2 (seconds mod 60) @ ''.'' @ format_zero 3 millis)"

text \<open>\<^verbatim>\<open>format_time\<close> of \<^verbatim>\<open>transcribe.py\<close> (lines 160-169).\<close>

definition transcribe_format_time :: "real \<Rightarrow> string" where
  "transcribe_format_time seconds =
     (let seconds = round_double seconds;
          ms = int_of_float (round_double (float_mod_1 seconds * 1000));
          seconds = int_of_float seconds;
          hours = seconds div 3600;
          minutes = (seconds mod 3600) div 60;
          seconds = seconds mod 60
      in format_zero 2 hours @ '':'' @ format_zero 2 minutes @ '':''
         @ format_zero 2 seconds @ ''.'' @ format_zero 3 ms)"

text \<open>
  Reading a rendered field back: the number a string of decimal digits denotes. It is used
  only to state what \<^const>\<open>format_time\<close> prints.
\<close>

definition is_digit :: "char \<Rightarrow> bool" where
  "is_digit c = (48 \<le> (of_char c :: nat) \<and> (of_char c :: nat) \<le> 57)"

definition nat_of_digits :: "string \<Rightarrow> nat" where
  "nat_of_digits ds = foldl (\<lambda>a c. 10 * a + (of_char c - 48)) 0 ds"

section \<open>External collaborators\<close>

text \<open>
  The decoder (\<^verbatim>\<open>ffmpeg -v error -i <path> -f null -\<close> through \<^verbatim>\<open>subprocess.run\<close>) either
  returns an exit code or the invocation raises. The probe (\<^verbatim>\<open>ffmpeg.probe\<close> followed by
  \<^verbatim>\<open>float(probe['format']['duration'])\<close>) gives a duration, or one of its steps raises: the
  process fails, the metadata has no duration, or the value is not a number. The engine
  (\<^verbatim>\<open>model.transcribe\<close>) gives the full text and the timed segments of a clip, in the clip's
  own time. Within one run a collaborator answers the same for the same path. The merged and
  the per-clip pipeline catch no exception of the engine; the model covers the runs in which
  the engine returns.
\<close>

datatype decoder_outcome = ExitCode int | InvocationError

datatype probe_outcome =
  ProbeDuration real | ProbeProcessError | ProbeMissingDuration | ProbeMalformedDuration

record segment =
  seg_start :: real
  seg_end :: real
  seg_text :: string

record transcription =
  full_text :: string
  segments :: "segment list"

record collaborators =
  ffmpeg_verify :: "string \<Rightarrow> decoder_outcome"
  ffmpeg_probe :: "string \<Rightarrow> probe_outcome"
  whisper_transcribe :: "string \<Rightarrow> transcription"

text \<open>
  What a run does to the outside, in program order: calls of the three collaborators (with
  the clip's path), and the opening of and the writes to the two output files.
\<close>

datatype file_handle = TxtFile | VttFile

datatype effect =
  Decode string | Probe string | Transcribe string
  | Open file_handle string | Write file_handle string

fun write_data :: "file_handle \<Rightarrow> effect \<Rightarrow> string" where
  "write_data h (Write h' s) = (if h' = h then s else [])"
| "write_data h (Decode p) = []"
| "write_data h (Probe p) = []"
| "write_data h (Transcribe p) = []"
| "write_data h (Open h' p) = []"

fun open_path :: "file_handle \<Rightarrow> effect \<Rightarrow> string option" where
  "open_path h (Open h' p) = (if h' = h then Some p else None)"
| "open_path h (Decode p) = None"
| "open_path h (Probe p) = None"
| "open_path h (Transcribe p) = None"
| "open_path h (Write h' s) = None"

text \<open>The text written through a handle, and the paths opened for it.\<close>

definition written :: "file_handle \<Rightarrow> effect list \<Rightarrow> string" where
  "written h trace = concat (map (write_data h) trace)"

definition opened :: "file_handle \<Rightarrow> effect list \<Rightarrow> string list" where
  "opened h trace = List.map_filter (open_path h) trace"

text \<open>
  The files a run of the merged pipeline leaves behind. It opens each handle once (mode
  \<^verbatim>\<open>'w'\<close> creates or empties the file), and the file then holds what was written through
  the handle.
\<close>

definition output_files :: "effect list \<Rightarrow> (string \<rightharpoonup> string)" where
  "output_files trace =
     fold (\<lambda>h fs. case opened h trace of [] \<Rightarrow> fs | p # ps \<Rightarrow> fs(p \<mapsto> written h trace))
       [TxtFile, VttFile] Map.empty"

section \<open>The merged pipeline: \<^verbatim>\<open>pptx_audio_transc_onefile.py\<close>\<close>

subsection \<open>Extraction from the container\<close>

text \<open>
  The container is given by its \<^verbatim>\<open>infolist()\<close>: for every entry its name and what
  \<^verbatim>\<open>zip_ref.extract\<close> does with it. \<^verbatim>\<open>BadZipFile\<close> carries whether the call had already created
  the target file when it raised: the library detects a bad check sum only after it has
  copied the entry's bytes, and a bad header before. A damaged compressed stream makes the
  call raise \<^verbatim>\<open>zlib.error\<close>, which the \<^verbatim>\<open>except\<close> clause of line 43 does not catch: the
  function ends with that exception.
\<close>

datatype extract_outcome = Extracted | BadZipFile bool | ZlibError

datatype extract_failure = UncaughtZlibError string

record zip_info =
  filename :: string
  extract_result :: extract_outcome

text \<open>The selection of line 40.\<close>

definition is_audio_entry :: "string \<Rightarrow> bool" where
  "is_audio_entry name =
     (prefix ''ppt/media/'' name \<and> endswith_any name [''.m4a'', ''.mp3'', ''.wav''])"

text \<open>
  Where \<^verbatim>\<open>extract\<close> puts an entry below the scratch folder: the components of its name
  without the empty ones, \<^verbatim>\<open>.\<close> and \<^verbatim>\<open>..\<close>.
\<close>

definition target_parts :: "string \<Rightarrow> string list" where
  "target_parts name =
     filter (\<lambda>part. part \<notin> set [[], ''.'', ''..'']) (split_on CHR ''/'' name)"

text \<open>
  The state of the extraction loop: the files below the scratch folder (emptied at the
  start, lines 31-34) and the list \<^verbatim>\<open>corrupted_files\<close>.
\<close>

record scratch =
  scratch_files :: "string list list"
  corrupted_files :: "string list"

fun extract_loop :: "zip_info list \<Rightarrow> scratch \<Rightarrow> extract_failure + scratch" where
  "extract_loop [] st = Inr st"
| "extract_loop (file_info # infolist) st =
     (if is_audio_entry (filename file_info)
      then (case extract_result file_info of
              Extracted \<Rightarrow>
                extract_loop infolist
                  (st\<lparr>scratch_files := scratch_files st @ [target_parts (filename file_info)]\<rparr>)
            | BadZipFile created \<Rightarrow>
                extract_loop infolist
                  (st\<lparr>scratch_files :=
                        (if created then scratch_files st @ [target_parts (filename file_info)]
                         else scratch_files st),
                      corrupted_files := corrupted_files st @ [filename file_info]\<rparr>)
            | ZlibError \<Rightarrow> Inl (UncaughtZlibError (filename file_info)))
      else extract_loop infolist st)"

text \<open>
  The names directly inside \<^verbatim>\<open>temp/ppt/media\<close>: the third component of every file below
  it, once each. \<^verbatim>\<open>glob('*.m4a')\<close> keeps the names that end in \<^verbatim>\<open>.m4a\<close>, and \<^verbatim>\<open>sorted\<close>
  orders the paths, which differ in the name only, by the name. A media folder that exists
  and is empty gives the same empty list as one that does not exist.
\<close>

definition media_children :: "string list list \<Rightarrow> string list" where
  "media_children fs =
     remdups (map (\<lambda>p. p ! 2) (filter (\<lambda>p. take 2 p = [''ppt'', ''media''] \<and> 2 < length p) fs))"

text \<open>
  \<^verbatim>\<open>extract_audio_from_pptx\<close> (lines 29-58; the function of the same name in
  \<^verbatim>\<open>pptx_audio_transcriber.py\<close> is the same text). The result is the returned list, each
  name \<open>n\<close> standing for the path \<^verbatim>\<open>temp/ppt/media/n\<close> below the output folder, and the
  list \<^verbatim>\<open>corrupted_files\<close> that the function prints; or the exception that ended the loop.
\<close>

definition extract_audio_from_pptx ::
  "zip_info list \<Rightarrow> extract_failure + string list \<times> string list" where
  "extract_audio_from_pptx infolist =
     (case extract_loop infolist \<lparr>scratch_files = [], corrupted_files = []\<rparr> of
        Inl e \<Rightarrow> Inl e
      | Inr st \<Rightarrow>
          let children = media_children (scratch_files st)
          in if children = [] then Inr ([], corrupted_files st)
             else Inr (sort (filter (suffix ''.m4a'') children), corrupted_files st))"

subsection \<open>Validation\<close>

definition is_valid_audio :: "collaborators \<Rightarrow> string \<Rightarrow> effect list \<Rightarrow> bool \<times> effect list" where
  "is_valid_audio env file_path trace =
     ((case ffmpeg_verify env file_path of
         ExitCode returncode \<Rightarrow> returncode = 0
       | InvocationError \<Rightarrow> False),
      trace @ [Decode file_path])"

definition get_audio_duration :: "collaborators \<Rightarrow> string \<Rightarrow> effect list \<Rightarrow> real \<times> effect list" where
  "get_audio_duration env file_path trace =
     ((case ffmpeg_probe env file_path of
         ProbeDuration duration \<Rightarrow> duration
       | ProbeProcessError \<Rightarrow> 0
       | ProbeMissingDuration \<Rightarrow> 0
       | ProbeMalformedDuration \<Rightarrow> 0),
      trace @ [Probe file_path])"

definition is_silent_transcription :: "string \<Rightarrow> bool" where
  "is_silent_transcription text = (length (strip text) = 0)"

subsection \<open>The timeline merge\<close>

text \<open>
  The state of the loop of \<^verbatim>\<open>transcribe_and_merge\<close>: the running offset \<^verbatim>\<open>current_time\<close>
  and what the run has done so far.
\<close>

record merge_state =
  current_time :: real
  effects :: "effect list"

text \<open>
  The two f-strings of the loop body: the block of line 128 and the cue of line 134, the
  latter with the two boundaries already computed.
\<close>

definition slide_block :: "nat \<Rightarrow> string \<Rightarrow> string" where
  "slide_block index transcribed_text =
     ''Slide '' @ str_nat index @ '':\<newline>'' @ transcribed_text @ ''\<newline>\<newline>''"

definition cue_text :: "real \<Rightarrow> real \<Rightarrow> string \<Rightarrow> string" where
  "cue_text global_start global_end caption =
     format_time global_start @ '' --> '' @ format_time global_end @ ''\<newline>'' @ caption
     @ ''\<newline>\<newline>''"

text \<open>One pass of the inner loop (lines 131-134): the cue of one segment.\<close>

definition write_cue :: "real \<Rightarrow> segment \<Rightarrow> effect list \<Rightarrow> effect list" where
  "write_cue offset segment trace =
     trace @ [Write VttFile
                (cue_text (offset + seg_start segment) (offset + seg_end segment)
                   (seg_text segment))]"

text \<open>The body of the loop over \<^verbatim>\<open>enumerate(audio_files, 1)\<close> (lines 110-137).\<close>

definition merge_clip :: "collaborators \<Rightarrow> nat \<times> string \<Rightarrow> merge_state \<Rightarrow> merge_state" where
  "merge_clip env indexed s =
     (let index = fst indexed; audio_file = snd indexed;
          (valid, trace1) = is_valid_audio env audio_file (effects s)
      in if \<not> valid then s\<lparr>effects := trace1\<rparr>
         else
           let (duration, trace2) = get_audio_duration env audio_file trace1
           in if duration < 1 then s\<lparr>effects := trace2\<rparr>
              else
                let result = whisper_transcribe env audio_file;
                    trace3 = trace2 @ [Transcribe audio_file];
                    transcribed_text = full_text result
                in if is_silent_transcription transcribed_text then s\<lparr>effects := trace3\<rparr>
                   else
                     let trace4 = trace3 @ [Write TxtFile (slide_block index transcribed_text)];
                         trace5 = fold (write_cue (current_time s)) (segments result) trace4
                     in \<lparr>current_time = current_time s + duration, effects = trace5\<rparr>)"

text \<open>Lines 101-107: the two paths, the offset at zero, both files opened, the header.\<close>

definition merge_start :: "string \<Rightarrow> string \<Rightarrow> merge_state" where
  "merge_start output_folder original_filename =
     (let txt_path = os_path_join output_folder (original_filename @ ''_transcription.txt'');
          vtt_path = os_path_join output_folder (original_filename @ ''_transcription.vtt'')
      in \<lparr>current_time = 0,
          effects = [Open TxtFile txt_path, Open VttFile vtt_path,
                     Write VttFile ''WEBVTT\<newline>\<newline>'']\<rparr>)"

text \<open>
  The state in which the loop enters its pass number \<open>k\<close> (counted from 0), and the whole
  function, which is the state after the last pass.
\<close>

definition loop_state :: "collaborators \<Rightarrow> string list \<Rightarrow> string \<Rightarrow> string \<Rightarrow> nat \<Rightarrow> merge_state" where
  "loop_state env audio_files output_folder original_filename k =
     fold (merge_clip env) (take k (enumerate 1 audio_files))
       (merge_start output_folder original_filename)"

definition transcribe_and_merge :: "collaborators \<Rightarrow> string list \<Rightarrow> string \<Rightarrow> string \<Rightarrow> merge_state" where
  "transcribe_and_merge env audio_files output_folder original_filename =
     fold (merge_clip env) (enumerate 1 audio_files)
       (merge_start output_folder original_filename)"

text \<open>
  A clip is included when it passes the three gates of the loop body, in the order in which
  the body applies them. The offset of a clip is the value of \<^verbatim>\<open>current_time\<close> when the loop
  reaches it.
\<close>

definition decodable :: "collaborators \<Rightarrow> string \<Rightarrow> bool" where
  "decodable env audio_file = fst (is_valid_audio env audio_file [])"

definition duration_of :: "collaborators \<Rightarrow> string \<Rightarrow> real" where
  "duration_of env audio_file = fst (get_audio_duration env audio_file [])"

definition included :: "collaborators \<Rightarrow> string \<Rightarrow> bool" where
  "included env audio_file =
     (decodable env audio_file \<and> \<not> duration_of env audio_file < 1
      \<and> \<not> is_silent_transcription (full_text (whisper_transcribe env audio_file)))"

definition offset_of :: "collaborators \<Rightarrow> string list \<Rightarrow> nat \<Rightarrow> real" where
  "offset_of env audio_files k = current_time (loop_state env audio_files [] [] k)"

section \<open>The per-clip pipeline: \<^verbatim>\<open>pptx_audio_transcriber.py\<close>\<close>

text \<open>
  \<^verbatim>\<open>audio_file.parent.parent.parent.name\<close> on a \<^verbatim>\<open>Path\<close>: the components of the path
  (empty ones and \<^verbatim>\<open>.\<close> are dropped when the \<^verbatim>\<open>Path\<close> is built), the last three removed,
  and of what is left the last one, or the empty string.
\<close>

definition path_parts :: "string \<Rightarrow> string list" where
  "path_parts p = filter (\<lambda>part. part \<notin> set [[], ''.'']) (split_on CHR ''/'' p)"

definition parent3_name :: "string \<Rightarrow> string" where
  "parent3_name p =
     (let parts = butlast (butlast (butlast (path_parts p)))
      in if parts = [] then [] else last parts)"

text \<open>The cue of lines 126-130: the segment's own times, no offset.\<close>

definition write_local_cue :: "segment \<Rightarrow> effect list \<Rightarrow> effect list" where
  "write_local_cue segment trace =
     trace @ [Write VttFile (cue_text (seg_start segment) (seg_end segment) (seg_text segment))]"

text \<open>\<^verbatim>\<open>transcribe_audio\<close> (lines 87-132), called once per clip by \<^verbatim>\<open>main\<close>.\<close>

definition transcribe_audio ::
  "collaborators \<Rightarrow> string \<Rightarrow> string \<Rightarrow> nat \<Rightarrow> effect list \<Rightarrow> effect list" where
  "transcribe_audio env audio_file output_folder slide_number trace =
     (let (valid, trace1) = is_valid_audio env audio_file trace
      in if \<not> valid then trace1
         else
           let (duration, trace2) = get_audio_duration env audio_file trace1
           in if duration < 1 then trace2
              else
                let result = whisper_transcribe env audio_file;
                    trace3 = trace2 @ [Transcribe audio_file];
                    transcribed_text = full_text result
                in if is_silent_transcription transcribed_text then trace3
                   else
                     let original_filename = parent3_name audio_file;
                         text_file = os_path_join output_folder
                           (original_filename @ ''_slide_'' @ str_nat slide_number @ ''.txt'');
                         vtt_file = os_path_join output_folder
                           (original_filename @ ''_slide_'' @ str_nat slide_number @ ''.vtt'');
                         trace4 = trace3 @ [Open TxtFile text_file, Write TxtFile transcribed_text,
                                            Open VttFile vtt_file,
                                            Write VttFile ''WEBVTT\<newline>\<newline>'']
                     in fold write_local_cue (segments result) trace4)"

section \<open>The interactive pipeline: \<^verbatim>\<open>transcribe.py\<close>\<close>

text \<open>
  \<^verbatim>\<open>extract_audio_from_pptx\<close> of \<^verbatim>\<open>transcribe.py\<close> (lines 75-104): of the files that
  \<^verbatim>\<open>os.walk\<close> lists below the media folder, given as one list of names per directory, those
  with one of the three extensions, each as its copy \<^verbatim>\<open>media/<name>\<close>. The copying itself
  is not part of the model.
\<close>

definition transcribe_extract_audio_from_pptx ::
  "bool \<Rightarrow> bool \<Rightarrow> string list list \<Rightarrow> string list" where
  "transcribe_extract_audio_from_pptx unzipped_exists target_exists walk =
     (if \<not> unzipped_exists then []
      else if target_exists
      then concat (map (\<lambda>files.
             map (os_path_join ''media'')
               (filter (\<lambda>file. endswith_any file [''.m4a'', ''.mp3'', ''.wav'']) files)) walk)
      else [])"

text \<open>
  \<^verbatim>\<open>transcribe_audio_files\<close> (lines 108-156) over a file system, a map from paths to
  contents. The surroundings are \<^verbatim>\<open>os.path.abspath\<close>, whether a folder exists, and the
  engine, which reads the file and gives a transcription or raises \<^verbatim>\<open>FileNotFoundError\<close>.
  \<^verbatim>\<open>os.listdir\<close> raises for a folder that does not exist, and \<^verbatim>\<open>open(path, 'w')\<close> raises
  for a path that is no file yet and whose folder does not exist; nothing catches either.
\<close>

datatype engine_outcome = Transcribed transcription | FileNotFoundError

record surroundings =
  abspath :: "string \<Rightarrow> string"
  listable :: "string \<Rightarrow> bool"
  engine :: "string \<Rightarrow> engine_outcome"

datatype run_error = ListdirFailed string | OpenFailed string

text \<open>\<^verbatim>\<open>os.path.dirname\<close> on POSIX.\<close>

definition dirname :: "string \<Rightarrow> string" where
  "dirname p =
     (let head = rev (dropWhile (\<lambda>c. c \<noteq> CHR ''/'') (rev p))
      in if head \<noteq> [] \<and> head \<noteq> replicate (length head) CHR ''/''
         then rev (dropWhile (\<lambda>c. c = CHR ''/'') (rev head))
         else head)"

definition vtt_document :: "segment list \<Rightarrow> string" where
  "vtt_document segs =
     ''WEBVTT\<newline>\<newline>''
     @ concat (map (\<lambda>segment.
         transcribe_format_time (seg_start segment) @ '' --> ''
         @ transcribe_format_time (seg_end segment) @ ''\<newline>'' @ seg_text segment
         @ ''\<newline>\<newline>'') segs)"

text \<open>The body of the loop for one file: the new file system, or the uncaught error.\<close>

definition transcribe_one ::
  "surroundings \<Rightarrow> string \<Rightarrow> (string \<rightharpoonup> string) \<Rightarrow> run_error + (string \<rightharpoonup> string)" where
  "transcribe_one sur file fs =
     (let abs_path = abspath sur file
      in case fs abs_path of
           None \<Rightarrow>
             if listable sur (dirname abs_path) then Inr fs
             else Inl (ListdirFailed (dirname abs_path))
         | Some audio \<Rightarrow>
             (case engine sur audio of
                FileNotFoundError \<Rightarrow> Inr fs
              | Transcribed result \<Rightarrow>
                  let text_path = str_replace ''.m4a'' ''.txt'' abs_path;
                      vtt_path = str_replace ''.m4a'' ''.vtt'' abs_path
                  in if fs text_path = None \<and> \<not> listable sur (dirname text_path)
                     then Inl (OpenFailed text_path)
                     else
                       let fs1 = fs(text_path \<mapsto> full_text result)
                       in if fs1 vtt_path = None \<and> \<not> listable sur (dirname vtt_path)
                          then Inl (OpenFailed vtt_path)
                          else Inr (fs1(vtt_path \<mapsto> vtt_document (segments result)))))"

fun transcribe_audio_files ::
  "surroundings \<Rightarrow> string list \<Rightarrow> (string \<rightharpoonup> string) \<Rightarrow> run_error + (string \<rightharpoonup> string)" where
  "transcribe_audio_files sur [] fs = Inr fs"
| "transcribe_audio_files sur (file # audio_files) fs =
     (case transcribe_one sur file fs of
        Inl e \<Rightarrow> Inl e
      | Inr fs' \<Rightarrow> transcribe_audio_files sur audio_files fs')"

text \<open>
  The scenario of the specification's section 8: three clips \<^verbatim>\<open>a.m4a\<close> (2.0 s, "hello"),
  \<^verbatim>\<open>b.m4a\<close> (0.5 s) and \<^verbatim>\<open>c.m4a\<close> (3.0 s, "world"), all decodable, one segment each.
\<close>

definition scenario_env :: collaborators where
  "scenario_env =
     \<lparr>ffmpeg_verify = (\<lambda>p. ExitCode 0),
      ffmpeg_probe = (\<lambda>p. if p = ''a.m4a'' then ProbeDuration 2
                           else if p = ''b.m4a'' then ProbeDuration (1 / 2)
                           else ProbeDuration 3),
      whisper_transcribe = (\<lambda>p.
         if p = ''a.m4a''
         then \<lparr>full_text = ''hello'',
               segments = [\<lparr>seg_start = 0, seg_end = 3 / 2, seg_text = ''hello''\<rparr>]\<rparr>
         else if p = ''b.m4a'' then \<lparr>full_text = [], segments = []\<rparr>
         else \<lparr>full_text = ''world'',
               segments = [\<lparr>seg_start = 1 / 2, seg_end = 5 / 2, seg_text = ''world''\<rparr>]\<rparr>)\<rparr>"

definition scenario_files :: "string list" where
  "scenario_files = [''a.m4a'', ''b.m4a'', ''c.m4a'']"

text \<open>
  The loop of \<^verbatim>\<open>main\<close> in \<^verbatim>\<open>pptx_audio_transcriber.py\<close> (lines 160-161) over the clips of
  one presentation.
\<close>

definition transcribe_each :: "collaborators \<Rightarrow> string list \<Rightarrow> string \<Rightarrow> effect list" where
  "transcribe_each env audio_files output_folder =
     fold (\<lambda>indexed trace. transcribe_audio env (snd indexed) output_folder (fst indexed) trace)
       (enumerate 1 audio_files) []"

text \<open>
  The order of the collaborator calls in a trace: every probe directly follows the decoding
  of the same clip, every transcription directly follows the probe and the decoding of the
  same clip, and both happen for decodable clips only.
\<close>

definition decode_first :: "collaborators \<Rightarrow> effect list \<Rightarrow> bool" where
  "decode_first env tr =
     list_all (\<lambda>k. case tr ! k of
         Probe p \<Rightarrow> 1 \<le> k \<and> tr ! (k - 1) = Decode p \<and> decodable env p
       | Transcribe p \<Rightarrow>
           2 \<le> k \<and> tr ! (k - 1) = Probe p \<and> tr ! (k - 2) = Decode p \<and> decodable env p
       | Decode p \<Rightarrow> True
       | Open h p \<Rightarrow> True
       | Write h s \<Rightarrow> True)
       [0..<length tr]"

text \<open>
  Two variants of the scenario: in the first the probe finds no duration for \<^verbatim>\<open>b.m4a\<close>, in
  the second the decoder exits with 1 on it.
\<close>

definition failing_probe_env :: collaborators where
  "failing_probe_env =
     scenario_env\<lparr>ffmpeg_probe :=
       (\<lambda>p. if p = ''b.m4a'' then ProbeMissingDuration else ffmpeg_probe scenario_env p)\<rparr>"

definition undecodable_env :: collaborators where
  "undecodable_env =
     scenario_env\<lparr>ffmpeg_verify := (\<lambda>p. if p = ''b.m4a'' then ExitCode 1 else ExitCode 0)\<rparr>"

text \<open>
  A third variant, in which the probe fails on every clip, and surroundings for
  \<^verbatim>\<open>transcribe.py\<close>: the working directory is \<^verbatim>\<open>/work\<close>, every folder can be listed, and the
  engine hears "hello" in every file.
\<close>

definition probe_down_env :: collaborators where
  "probe_down_env = scenario_env\<lparr>ffmpeg_probe := (\<lambda>p. ProbeProcessError)\<rparr>"

definition work_surroundings :: surroundings where
  "work_surroundings =
     \<lparr>abspath = (\<lambda>p. ''/work/'' @ p),
      listable = (\<lambda>d. True),
      engine = (\<lambda>audio. Transcribed
        \<lparr>full_text = ''hello'',
         segments = [\<lparr>seg_start = 0, seg_end = 3 / 2, seg_text = ''hello''\<rparr>]\<rparr>)\<rparr>"

section \<open>Properties of the timestamp format\<close>

lemma digit_char_code: "d < 10 \<Longrightarrow> of_char (digit_char d) = (48 + d :: nat)"
proof -
  assume "d < 10"
  then have "d \<in> {0, 1, 2, 3, 4, 5, 6, 7, 8, 9}" by auto
  then show ?thesis by (auto simp: digit_char_def)
qed

lemma is_digit_digit_char: "d < 10 \<Longrightarrow> is_digit (digit_char d)"
  by (simp add: is_digit_def digit_char_code)

lemma str_nat_digits: "list_all is_digit (str_nat n)"
proof (induction n rule: str_nat.induct)
  case (1 n)
  show ?case
  proof (cases "n < 10")
    case True
    then show ?thesis by (simp add: str_nat.simps[of n] is_digit_digit_char)
  next
    case False
    with "1" show ?thesis by (simp add: str_nat.simps[of n] is_digit_digit_char)
  qed
qed

lemma nat_of_digits_snoc:
  "nat_of_digits (ds @ [c]) = 10 * nat_of_digits ds + (of_char c - 48)"
  by (simp add: nat_of_digits_def)

lemma nat_of_digits_str_nat: "nat_of_digits (str_nat n) = n"
proof (induction n rule: str_nat.induct)
  case (1 n)
  show ?case
  proof (cases "n < 10")
    case True
    then show ?thesis
      by (simp add: str_nat.simps[of n] nat_of_digits_def digit_char_code)
  next
    case False
    with "1" show ?thesis
      by (simp add: str_nat.simps[of n] nat_of_digits_snoc digit_char_code)
  qed
qed

lemma length_str_nat_pos: "0 < length (str_nat n)"
  by (subst str_nat.simps) simp

lemma length_str_nat_1: "n < 10 \<Longrightarrow> length (str_nat n) = 1"
  by (subst str_nat.simps) simp

lemma length_str_nat_2: "n < 100 \<Longrightarrow> length (str_nat n) \<le> 2"
  by (subst str_nat.simps) (simp add: length_str_nat_1)

lemma length_str_nat_3: "n < 1000 \<Longrightarrow> length (str_nat n) \<le> 3"
proof -
  assume "n < 1000"
  then have "n div 10 < 100" by simp
  then have "length (str_nat (n div 10)) \<le> 2" by (rule length_str_nat_2)
  then show ?thesis by (subst str_nat.simps) simp
qed

lemma nat_of_digits_zeros: "nat_of_digits (replicate k CHR ''0'' @ ds) = nat_of_digits ds"
  by (induction k) (simp_all add: nat_of_digits_def)

lemma format_zero_nonneg:
  "0 \<le> i \<Longrightarrow> format_zero w i = replicate (w - length (str_nat (nat i))) CHR ''0'' @ str_nat (nat i)"
  by (simp add: format_zero_def)

lemma format_zero_value: "0 \<le> i \<Longrightarrow> int (nat_of_digits (format_zero w i)) = i"
  by (simp add: format_zero_nonneg nat_of_digits_zeros nat_of_digits_str_nat)

lemma format_zero_digits: "0 \<le> i \<Longrightarrow> list_all is_digit (format_zero w i)"
proof -
  have "list_all is_digit (replicate k CHR ''0'')" for k
    by (induction k) (simp_all add: is_digit_def)
  then show "0 \<le> i \<Longrightarrow> list_all is_digit (format_zero w i)"
    by (simp add: format_zero_nonneg str_nat_digits)
qed

lemma format_zero_length_ge: "0 \<le> i \<Longrightarrow> w \<le> length (format_zero w i)"
  by (simp add: format_zero_nonneg)

lemma format_zero_length_2: "0 \<le> i \<Longrightarrow> i < 100 \<Longrightarrow> length (format_zero 2 i) = 2"
  using length_str_nat_2[of "nat i"] by (simp add: format_zero_nonneg)

lemma format_zero_length_3: "0 \<le> i \<Longrightarrow> i < 1000 \<Longrightarrow> length (format_zero 3 i) = 3"
  using length_str_nat_3[of "nat i"] by (simp add: format_zero_nonneg)

subsection \<open>Rounding to a double\<close>

lemma bit_length_pos: "0 < n \<Longrightarrow> 0 < bit_length n"
  by (subst bit_length.simps) simp

lemma bit_length_bounds: "0 < n \<Longrightarrow> 2 ^ (bit_length n - 1) \<le> n \<and> n < 2 ^ bit_length n"
proof (induction n rule: bit_length.induct)
  case (1 n)
  have unfold: "bit_length n = Suc (bit_length (n div 2))"
    using "1.prems" by (subst bit_length.simps) simp
  show ?case
  proof (cases "0 < n div 2")
    case False
    with "1.prems" have "n = 1" by arith
    then show ?thesis by (simp add: bit_length.simps)
  next
    case True
    define b where "b = bit_length (n div 2)"
    have b: "0 < b" using True unfolding b_def by (rule bit_length_pos)
    from "1.IH" "1.prems" True
    have ih: "2 ^ (b - 1) \<le> n div 2 \<and> n div 2 < 2 ^ b" unfolding b_def by simp
    have pow: "(2::int) ^ b = 2 * 2 ^ (b - 1)"
      using b by (cases b) simp_all
    have "2 * (n div 2) \<le> n" and "n < 2 * (n div 2) + 2" by arith+
    with ih pow have "2 ^ b \<le> n \<and> n < 2 * 2 ^ b" by arith
    then show ?thesis unfolding unfold b_def[symmetric] by simp
  qed
qed

lemma exponent_bounds:
  assumes "0 < x"
  shows "2 powi exponent_of x \<le> x \<and> x < 2 powi (exponent_of x + 1)"
proof (cases "1 \<le> x")
  case True
  define n where "n = \<lfloor>x\<rfloor>"
  define b where "b = bit_length n"
  have n: "0 < n" using True unfolding n_def by simp
  have b: "0 < b" using n unfolding b_def by (rule bit_length_pos)
  from bit_length_bounds[OF n] have bb: "2 ^ (b - 1) \<le> n" "n < 2 ^ b" unfolding b_def by simp_all
  have e: "exponent_of x = int (b - 1)"
    using True b by (simp add: exponent_of_def n_def b_def)
  have e1: "exponent_of x + 1 = int b" using e b by simp
  have "(2::real) ^ (b - 1) \<le> of_int n"
    using bb(1) by (metis of_int_le_iff of_int_numeral of_int_power)
  also have "\<dots> \<le> x" unfolding n_def by simp
  finally have lo: "2 powi exponent_of x \<le> x" unfolding e by simp
  have "n + 1 \<le> 2 ^ b" using bb(2) by simp
  then have "of_int (n + 1) \<le> (2::real) ^ b"
    by (metis of_int_le_iff of_int_numeral of_int_power)
  moreover have "x < of_int (n + 1)" unfolding n_def by simp
  ultimately have "x < 2 ^ b" by simp
  then have hi: "x < 2 powi (exponent_of x + 1)" unfolding e1 by simp
  from lo hi show ?thesis ..
next
  case False
  define y where "y = 1 / x"
  define m where "m = \<lceil>y\<rceil> - 1"
  define b where "b = bit_length m"
  have y: "1 < y" using False assms unfolding y_def by simp
  have m: "0 < m" using y unfolding m_def by simp
  have my: "of_int m < y" "y \<le> of_int m + 1" unfolding m_def by linarith+
  have b: "0 < b" using m unfolding b_def by (rule bit_length_pos)
  from bit_length_bounds[OF m] have bb: "2 ^ (b - 1) \<le> m" "m < 2 ^ b" unfolding b_def by simp_all
  have e: "exponent_of x = - int b"
    using False by (simp add: exponent_of_def m_def y_def b_def)
  have e1: "exponent_of x + 1 = - int (b - 1)" using e b by simp
  have xy: "1 / y = x" unfolding y_def by simp
  have p0: "(2::real) powi exponent_of x = 1 / 2 ^ b"
    by (simp add: e power_int_minus inverse_eq_divide)
  have p1: "(2::real) powi (exponent_of x + 1) = 1 / 2 ^ (b - 1)"
    by (simp add: e1 power_int_minus inverse_eq_divide)
  have "m + 1 \<le> 2 ^ b" using bb(2) by simp
  then have "real_of_int (m + 1) \<le> real_of_int (2 ^ b)" by (simp only: of_int_le_iff)
  then have "real_of_int m + 1 \<le> 2 ^ b" by simp
  with my(2) have "y \<le> 2 ^ b" by linarith
  then have "1 / 2 ^ b \<le> 1 / y" using y by (simp add: frac_le)
  then have lo: "2 powi exponent_of x \<le> x"
    unfolding p0 xy .
  have "(2::real) ^ (b - 1) \<le> of_int m"
    using bb(1) by (metis of_int_le_iff of_int_numeral of_int_power)
  with my(1) have "2 ^ (b - 1) < y" by linarith
  then have "1 / y < 1 / 2 ^ (b - 1)" by (simp add: frac_less2)
  then have hi: "x < 2 powi (exponent_of x + 1)"
    unfolding p1 xy .
  from lo hi show ?thesis ..
qed

lemma round_half_even_le: "z \<le> of_int n \<Longrightarrow> round_half_even z \<le> n"
  unfolding round_half_even_def Let_def by (auto; linarith)

lemma round_half_even_below: "z < of_int n - 1 / 2 \<Longrightarrow> round_half_even z \<le> n - 1"
  unfolding round_half_even_def Let_def by (auto; linarith)

lemma round_half_even_nonneg: "0 \<le> z \<Longrightarrow> 0 \<le> round_half_even z"
  unfolding round_half_even_def Let_def by (auto; linarith)

lemma round_double_pos:
  "0 < x \<Longrightarrow>
     round_double x =
       2 powi (max (exponent_of x) (- 1022) - 52)
       * of_int (round_half_even (x / 2 powi (max (exponent_of x) (- 1022) - 52)))"
  by (simp add: round_double_def Let_def)

lemma round_double_nonneg: "0 \<le> x \<Longrightarrow> 0 \<le> round_double x"
proof (cases "x = 0")
  case True
  then show ?thesis by (simp add: round_double_def)
next
  case False
  assume "0 \<le> x"
  with False have x: "0 < x" by simp
  have "0 \<le> round_half_even (x / 2 powi (max (exponent_of x) (- 1022) - 52))"
    using x by (intro round_half_even_nonneg) simp
  then show ?thesis using x by (simp add: round_double_pos)
qed

lemma two_powi_less_imp: "(2::real) powi a < 2 powi b \<Longrightarrow> a < b"
proof (rule ccontr)
  assume lt: "(2::real) powi a < 2 powi b" and "\<not> a < b"
  then have "b \<le> a" by simp
  then have "(2::real) powi b \<le> 2 powi a" by (rule power_int_increasing) simp
  with lt show False by simp
qed

lemma two_powi_add: "(2::real) powi a * 2 powi b = 2 powi (a + b)"
  by (simp add: power_int_add)

lemma two_powi_nat: "0 \<le> a \<Longrightarrow> (2::real) powi a = of_int (2 ^ nat a)"
  by (simp add: power_int_def)

lemma ulp_inverse: "1 / (2::real) powi (E - 52) = 2 powi (52 - E)"
  using power_int_minus[of "2::real" "E - 52"] by (simp add: inverse_eq_divide)

lemma rounded_frac_bound:
  assumes s: "0 \<le> s"
  shows "round_double s - of_int \<lfloor>round_double s\<rfloor> \<le> 1 - 1 / 2 ^ 53"
proof (cases "s = 0")
  case True
  then show ?thesis by (simp add: round_double_def)
next
  case False
  with s have pos: "0 < s" by simp
  define e where "e = exponent_of s"
  define E where "E = max e (- 1022)"
  define u :: real where "u = 2 powi (E - 52)"
  define k where "k = round_half_even (s / u)"
  define x where "x = round_double s"
  have x: "x = u * of_int k"
    unfolding x_def k_def u_def E_def e_def using pos by (rule round_double_pos)
  have u: "0 < u" unfolding u_def by simp
  have inv_u: "1 / u = 2 powi (52 - E)" unfolding u_def by (rule ulp_inverse)
  from exponent_bounds[OF pos] have eb: "2 powi e \<le> s" "s < 2 powi (e + 1)"
    unfolding e_def by simp_all
  have x0: "0 \<le> x" unfolding x_def using s by (rule round_double_nonneg)
  have "x - of_int \<lfloor>x\<rfloor> \<le> 1 - 1 / 2 ^ 53"
  proof (cases "s < 1 / 2")
    case True
    have "(2::real) powi e < 2 powi (- 1)" using eb(1) True by simp
    then have "e < - 1" by (rule two_powi_less_imp)
    then have E2: "E \<le> - 2" unfolding E_def by simp
    define M :: int where "M = 2 ^ nat (51 - E)"
    have M: "of_int M = (2::real) powi (51 - E)"
      unfolding M_def using E2 by (simp add: two_powi_nat)
    have "(1 / 2) / u = 2 powi (- 1) * 2 powi (52 - E)"
      using inv_u by simp
    also have "\<dots> = 2 powi (- 1 + (52 - E))" by (rule two_powi_add)
    also have "- 1 + (52 - E) = 51 - E" by simp
    finally have half: "(1 / 2) / u = of_int M" using M by simp
    have "s / u \<le> (1 / 2) / u"
    proof (rule divide_right_mono)
      show "s \<le> 1 / 2" using True by simp
      show "0 \<le> u" using u by simp
    qed
    then have "k \<le> M" unfolding k_def half by (rule round_half_even_le)
    then have "u * of_int k \<le> u * of_int M" using u by simp
    also have "u * of_int M = 1 / 2" using half u by (simp add: field_simps)
    finally have xh: "x \<le> 1 / 2" unfolding x .
    with x0 have "\<lfloor>x\<rfloor> = 0" by linarith
    with xh show ?thesis by simp
  next
    case False
    then have "(2::real) powi (- 1) < 2 powi (e + 1)" using eb(2) by simp
    then have "- 1 < e + 1" by (rule two_powi_less_imp)
    then have E1: "- 1 \<le> E" unfolding E_def by simp
    define j :: int where "j = 2 ^ nat (E + 1) * k"
    have "u * 2 ^ 53 = 2 powi (E - 52) * 2 powi 53" unfolding u_def by simp
    also have "\<dots> = 2 powi (E - 52 + 53)" by (rule two_powi_add)
    also have "E - 52 + 53 = E + 1" by simp
    also have "(2::real) powi (E + 1) = of_int (2 ^ nat (E + 1))"
      using E1 by (simp add: two_powi_nat)
    finally have "x * 2 ^ 53 = of_int j" unfolding x j_def by (simp add: mult.commute mult.left_commute)
    then have fr: "(x - of_int \<lfloor>x\<rfloor>) * 2 ^ 53 = of_int (j - \<lfloor>x\<rfloor> * 2 ^ 53)"
      by (simp add: algebra_simps)
    have "x - of_int \<lfloor>x\<rfloor> < 1" by linarith
    then have "(x - of_int \<lfloor>x\<rfloor>) * 2 ^ 53 < 1 * 2 ^ 53"
      by (intro mult_strict_right_mono) simp_all
    then have "real_of_int (j - \<lfloor>x\<rfloor> * 2 ^ 53) < real_of_int (2 ^ 53)" unfolding fr by simp
    then have "j - \<lfloor>x\<rfloor> * 2 ^ 53 < 2 ^ 53" by (simp only: of_int_less_iff)
    then have "j - \<lfloor>x\<rfloor> * 2 ^ 53 \<le> 2 ^ 53 - 1" by simp
    then have "real_of_int (j - \<lfloor>x\<rfloor> * 2 ^ 53) \<le> real_of_int (2 ^ 53 - 1)"
      by (simp only: of_int_le_iff)
    then have "(x - of_int \<lfloor>x\<rfloor>) * 2 ^ 53 \<le> 2 ^ 53 - 1" unfolding fr by simp
    then show ?thesis by (simp add: field_simps)
  qed
  then show ?thesis unfolding x_def .
qed

lemma product_rounds_below_1000:
  assumes f0: "0 \<le> f" and f1: "f \<le> 1 - 1 / 2 ^ 53"
  shows "0 \<le> round_double (f * 1000) \<and> round_double (f * 1000) < 1000"
proof (cases "f = 0")
  case True
  then show ?thesis by (simp add: round_double_def)
next
  case False
  define y where "y = f * 1000"
  have pos: "0 < y" using False f0 unfolding y_def by simp
  have y1: "y \<le> 1000 - 1000 / 2 ^ 53" using f1 unfolding y_def by simp
  define e where "e = exponent_of y"
  define E where "E = max e (- 1022)"
  define u :: real where "u = 2 powi (E - 52)"
  define k where "k = round_half_even (y / u)"
  have r: "round_double y = u * of_int k"
    unfolding k_def u_def E_def e_def using pos by (rule round_double_pos)
  have u: "0 < u" unfolding u_def by simp
  have inv_u: "1 / u = 2 powi (52 - E)" unfolding u_def by (rule ulp_inverse)
  from exponent_bounds[OF pos] have eb: "2 powi e \<le> y" unfolding e_def by simp
  have "(2::real) powi e < 2 powi 10" using eb y1 by simp
  then have "e < 10" by (rule two_powi_less_imp)
  then have E9: "E \<le> 9" unfolding E_def by simp
  define N :: int where "N = 1000 * 2 ^ nat (52 - E)"
  have N: "of_int N = 1000 / u"
  proof -
    have "1000 / u = 1000 * (1 / u)" by simp
    also have "\<dots> = 1000 * of_int (2 ^ nat (52 - E))"
      unfolding inv_u using E9 by (simp add: two_powi_nat)
    finally show ?thesis unfolding N_def by simp
  qed
  have small: "1 / 2 < (1000 / 2 ^ 53) / u"
  proof -
    have "(1000 / 2 ^ 53) / u = 1000 * (2 powi (- 53) * 2 powi (52 - E))"
      using inv_u by (simp add: power_int_minus field_simps)
    also have "2 powi (- 53) * (2::real) powi (52 - E) = 2 powi (- 53 + (52 - E))"
      by (rule two_powi_add)
    also have "- 53 + (52 - E) = - 1 - E" by simp
    finally have eq: "(1000 / 2 ^ 53) / u = 1000 * 2 powi (- 1 - E)" .
    have "(2::real) powi (- 10) \<le> 2 powi (- 1 - E)"
      using E9 by (intro power_int_increasing) simp_all
    then have "1000 * (2::real) powi (- 10) \<le> 1000 * 2 powi (- 1 - E)" by simp
    moreover have "1 / 2 < 1000 * (2::real) powi (- 10)" by simp
    ultimately show ?thesis unfolding eq by linarith
  qed
  have "y / u \<le> (1000 - 1000 / 2 ^ 53) / u"
  proof (rule divide_right_mono)
    show "y \<le> 1000 - 1000 / 2 ^ 53" by (rule y1)
    show "0 \<le> u" using u by simp
  qed
  also have "\<dots> = of_int N - (1000 / 2 ^ 53) / u" unfolding N by (simp add: diff_divide_distrib)
  finally have "y / u < of_int N - 1 / 2" using small by linarith
  then have "k \<le> N - 1" unfolding k_def by (rule round_half_even_below)
  then have "real_of_int k \<le> real_of_int (N - 1)" by (simp only: of_int_le_iff)
  then have "u * of_int k \<le> u * of_int (N - 1)" using u by simp
  also have "u * of_int (N - 1) = 1000 - u" using N u by (simp add: field_simps)
  finally have "round_double y < 1000" unfolding r using u by linarith
  moreover have "0 \<le> round_double y" using pos by (intro round_double_nonneg) simp
  ultimately show ?thesis unfolding y_def by simp
qed

subsection \<open>The printed fields\<close>

lemma millis_range:
  assumes "0 \<le> s"
  shows "0 \<le> \<lfloor>round_double (float_mod_1 (round_double s) * 1000)\<rfloor>"
    and "\<lfloor>round_double (float_mod_1 (round_double s) * 1000)\<rfloor> < 1000"
    and "int_of_float (round_double (float_mod_1 (round_double s) * 1000))
           = \<lfloor>round_double ((round_double s - of_int \<lfloor>round_double s\<rfloor>) * 1000)\<rfloor>"
proof -
  define x where "x = round_double s"
  define f where "f = x - of_int \<lfloor>x\<rfloor>"
  have x0: "0 \<le> x" unfolding x_def using assms by (rule round_double_nonneg)
  have fm: "float_mod_1 x = f" using x0 by (simp add: float_mod_1_def f_def)
  have f0: "0 \<le> f" unfolding f_def by linarith
  have f1: "f \<le> 1 - 1 / 2 ^ 53" unfolding f_def x_def using assms by (rule rounded_frac_bound)
  from product_rounds_below_1000[OF f0 f1]
  have p: "0 \<le> round_double (f * 1000)" "round_double (f * 1000) < 1000" by simp_all
  show "0 \<le> \<lfloor>round_double (float_mod_1 (round_double s) * 1000)\<rfloor>"
    using p(1) by (simp add: x_def[symmetric] fm)
  show "\<lfloor>round_double (float_mod_1 (round_double s) * 1000)\<rfloor> < 1000"
    using p(2) by (simp add: x_def[symmetric] fm floor_less_iff)
  show "int_of_float (round_double (float_mod_1 (round_double s) * 1000))
           = \<lfloor>round_double ((round_double s - of_int \<lfloor>round_double s\<rfloor>) * 1000)\<rfloor>"
    using p(1) by (simp add: x_def[symmetric] fm int_of_float_def f_def)
qed

lemma div_60_60: "(t::int) div 60 div 60 = t div 3600"
  by (simp add: zdiv_zmult2_eq[symmetric])

lemma mod_3600_div_60: "((t::int) mod 3600) div 60 = t div 60 mod 60"
proof -
  have "t mod (60 * 60) = 60 * (t div 60 mod 60) + t mod 60"
    by (rule zmod_zmult2_eq) simp
  then show ?thesis by simp
qed

lemma transcribe_format_time_eq: "transcribe_format_time s = format_time s"
  by (simp add: transcribe_format_time_def format_time_def Let_def div_60_60 mod_3600_div_60
      mod_mod_cancel)

lemma int_of_float_nonneg: "0 \<le> x \<Longrightarrow> int_of_float x = \<lfloor>x\<rfloor>"
  by (simp add: int_of_float_def)

text \<open>
  Claim C4. For every non-negative timestamp, \<^const>\<open>format_time\<close> prints four fields of
  decimal digits \<open>HH:MM:SS.mmm\<close> for the double \<open>x\<close> that the argument denotes: the
  millisecond field has three digits and denotes the integer truncation of the fractional
  part of \<open>x\<close> times 1000, the product being the machine's, rounded to a double; the second
  and minute fields have two digits and denote the whole seconds of \<open>x\<close> modulo 60 and its
  whole minutes modulo 60; the hour field has at least two digits and denotes the whole
  seconds divided by 3600, with no reduction modulo 24. The variant of \<^verbatim>\<open>transcribe.py\<close>
  prints the same text, and \<open>format_time(0.0) = "00:00:00.000"\<close>,
  \<open>format_time(3661.5) = "01:01:01.500"\<close>, \<open>format_time(59.999) = "00:00:59.999"\<close>. Two
  values at which the rounding decides the last digit: \<open>format_time(0.3) = "00:00:00.300"\<close>
  and \<open>format_time(2.3) = "00:00:02.299"\<close>.
\<close>

theorem format_time_renders:
  "(0 \<le> seconds \<longrightarrow>
      (\<exists>hh mm ss mmm.
          format_time seconds = hh @ '':'' @ mm @ '':'' @ ss @ ''.'' @ mmm
        \<and> 2 \<le> length hh \<and> length mm = 2 \<and> length ss = 2 \<and> length mmm = 3
        \<and> list_all is_digit (hh @ mm @ ss @ mmm)
        \<and> int (nat_of_digits mmm)
            = \<lfloor>round_double
                ((round_double seconds - of_int \<lfloor>round_double seconds\<rfloor>) * 1000)\<rfloor>
        \<and> int (nat_of_digits ss) = \<lfloor>round_double seconds\<rfloor> mod 60
        \<and> int (nat_of_digits mm) = \<lfloor>round_double seconds\<rfloor> div 60 mod 60
        \<and> int (nat_of_digits hh) = \<lfloor>round_double seconds\<rfloor> div 3600))
   \<and> transcribe_format_time seconds = format_time seconds
   \<and> format_time 0 = ''00:00:00.000''
   \<and> format_time 3661.5 = ''01:01:01.500''
   \<and> format_time 59.999 = ''00:00:59.999''
   \<and> format_time 0.3 = ''00:00:00.300''
   \<and> format_time 2.3 = ''00:00:02.299''"
proof -
  have general: "\<exists>hh mm ss mmm.
          format_time seconds = hh @ '':'' @ mm @ '':'' @ ss @ ''.'' @ mmm
        \<and> 2 \<le> length hh \<and> length mm = 2 \<and> length ss = 2 \<and> length mmm = 3
        \<and> list_all is_digit (hh @ mm @ ss @ mmm)
        \<and> int (nat_of_digits mmm)
            = \<lfloor>round_double
                ((round_double seconds - of_int \<lfloor>round_double seconds\<rfloor>) * 1000)\<rfloor>
        \<and> int (nat_of_digits ss) = \<lfloor>round_double seconds\<rfloor> mod 60
        \<and> int (nat_of_digits mm) = \<lfloor>round_double seconds\<rfloor> div 60 mod 60
        \<and> int (nat_of_digits hh) = \<lfloor>round_double seconds\<rfloor> div 3600" if nonneg: "0 \<le> seconds"
  proof -
    define x where "x = round_double seconds"
    define t where "t = \<lfloor>x\<rfloor>"
    define ms where "ms = \<lfloor>round_double (float_mod_1 x * 1000)\<rfloor>"
    have x0: "0 \<le> x" unfolding x_def using nonneg by (rule round_double_nonneg)
    have t0: "0 \<le> t" using x0 by (simp add: t_def)
    have ms0: "0 \<le> ms" and ms1: "ms < 1000"
      using millis_range(1,2)[OF nonneg] by (simp_all add: ms_def x_def)
    have ms_eq: "ms = \<lfloor>round_double ((x - of_int \<lfloor>x\<rfloor>) * 1000)\<rfloor>"
      using x0 by (simp add: ms_def float_mod_1_def)
    have iof: "int_of_float (round_double (float_mod_1 x * 1000)) = ms"
      using millis_range(3)[OF nonneg] unfolding x_def[symmetric] ms_eq .
    have h0: "0 \<le> t div 60 div 60" using t0 by (simp add: pos_imp_zdiv_nonneg_iff)
    have m0: "0 \<le> t div 60 mod 60" and m1: "t div 60 mod 60 < 100" by simp_all
    have s0: "0 \<le> t mod 60" and s1: "t mod 60 < 100" by simp_all
    have ft: "format_time seconds = format_zero 2 (t div 60 div 60) @ '':''
        @ format_zero 2 (t div 60 mod 60) @ '':'' @ format_zero 2 (t mod 60) @ ''.''
        @ format_zero 3 ms"
      using x0
      by (simp add: format_time_def Let_def x_def[symmetric] iof int_of_float_nonneg t_def)
    have v_ms: "int (nat_of_digits (format_zero 3 ms))
        = \<lfloor>round_double ((x - of_int \<lfloor>x\<rfloor>) * 1000)\<rfloor>"
      using format_zero_value[OF ms0, of 3] by (simp only: ms_eq[symmetric])
    have v_ss: "int (nat_of_digits (format_zero 2 (t mod 60))) = \<lfloor>x\<rfloor> mod 60"
      using s0 by (simp add: format_zero_value) (simp add: t_def)
    have v_mm: "int (nat_of_digits (format_zero 2 (t div 60 mod 60))) = \<lfloor>x\<rfloor> div 60 mod 60"
      using m0 by (simp add: format_zero_value) (simp add: t_def)
    have v_hh: "int (nat_of_digits (format_zero 2 (t div 60 div 60))) = \<lfloor>x\<rfloor> div 3600"
      using h0 by (simp add: format_zero_value) (simp add: t_def div_60_60)
    have l_hh: "2 \<le> length (format_zero 2 (t div 60 div 60))"
      using h0 by (rule format_zero_length_ge)
    have l_mm: "length (format_zero 2 (t div 60 mod 60)) = 2"
      using m0 m1 by (rule format_zero_length_2)
    have l_ss: "length (format_zero 2 (t mod 60)) = 2"
      using s0 s1 by (rule format_zero_length_2)
    have l_ms: "length (format_zero 3 ms) = 3"
      using ms0 ms1 by (rule format_zero_length_3)
    have d: "list_all is_digit (format_zero 2 (t div 60 div 60) @ format_zero 2 (t div 60 mod 60)
        @ format_zero 2 (t mod 60) @ format_zero 3 ms)"
      using h0 m0 s0 ms0 by (simp add: format_zero_digits)
    show ?thesis
      unfolding x_def[symmetric]
      apply (rule exI[of _ "format_zero 2 (t div 60 div 60)"])
      apply (rule exI[of _ "format_zero 2 (t div 60 mod 60)"])
      apply (rule exI[of _ "format_zero 2 (t mod 60)"])
      apply (rule exI[of _ "format_zero 3 ms"])
      apply (insert ft l_hh l_mm l_ss l_ms d v_ms v_ss v_mm v_hh)
      apply (intro conjI)
      apply assumption+
      done
  qed
  have e0: "format_time 0 = ''00:00:00.000''" by code_simp
  have e1: "format_time 3661.5 = ''01:01:01.500''" by code_simp
  have e2: "format_time 59.999 = ''00:00:59.999''" by code_simp
  have e3: "format_time 0.3 = ''00:00:00.300''" by code_simp
  have e4: "format_time 2.3 = ''00:00:02.299''" by code_simp
  from general e0 e1 e2 e3 e4 show ?thesis
    by (simp add: transcribe_format_time_eq)
qed

text \<open>
  The theorem at \<open>2.3\<close> seconds, which is a little less as a double: two seconds and 299 ms.
\<close>

theorem format_time_renders_witness:
  "(0::real) \<le> 2.3
   \<and> (\<exists>hh mm ss mmm.
          format_time 2.3 = hh @ '':'' @ mm @ '':'' @ ss @ ''.'' @ mmm
        \<and> 2 \<le> length hh \<and> length mm = 2 \<and> length ss = 2 \<and> length mmm = 3
        \<and> list_all is_digit (hh @ mm @ ss @ mmm)
        \<and> int (nat_of_digits mmm) = 299 \<and> int (nat_of_digits ss) = 2
        \<and> int (nat_of_digits mm) = 0 \<and> int (nat_of_digits hh) = 0)"
proof -
  have h: "(0::real) \<le> 2.3" by simp
  have v: "\<lfloor>round_double ((round_double 2.3 - of_int \<lfloor>round_double 2.3\<rfloor>) * 1000)\<rfloor> = 299"
    "\<lfloor>round_double 2.3\<rfloor> mod 60 = 2" "\<lfloor>round_double 2.3\<rfloor> div 60 mod 60 = 0"
    "\<lfloor>round_double 2.3\<rfloor> div 3600 = 0"
    by code_simp+
  from format_time_renders[of "2.3"]
  have "(0::real) \<le> 2.3 \<longrightarrow> (\<exists>hh mm ss mmm.
          format_time 2.3 = hh @ '':'' @ mm @ '':'' @ ss @ ''.'' @ mmm
        \<and> 2 \<le> length hh \<and> length mm = 2 \<and> length ss = 2 \<and> length mmm = 3
        \<and> list_all is_digit (hh @ mm @ ss @ mmm)
        \<and> int (nat_of_digits mmm)
            = \<lfloor>round_double ((round_double 2.3 - of_int \<lfloor>round_double 2.3\<rfloor>) * 1000)\<rfloor>
        \<and> int (nat_of_digits ss) = \<lfloor>round_double 2.3\<rfloor> mod 60
        \<and> int (nat_of_digits mm) = \<lfloor>round_double 2.3\<rfloor> div 60 mod 60
        \<and> int (nat_of_digits hh) = \<lfloor>round_double 2.3\<rfloor> div 3600)"
    by (rule conjunct1)
  then have "\<exists>hh mm ss mmm.
          format_time 2.3 = hh @ '':'' @ mm @ '':'' @ ss @ ''.'' @ mmm
        \<and> 2 \<le> length hh \<and> length mm = 2 \<and> length ss = 2 \<and> length mmm = 3
        \<and> list_all is_digit (hh @ mm @ ss @ mmm)
        \<and> int (nat_of_digits mmm)
            = \<lfloor>round_double ((round_double 2.3 - of_int \<lfloor>round_double 2.3\<rfloor>) * 1000)\<rfloor>
        \<and> int (nat_of_digits ss) = \<lfloor>round_double 2.3\<rfloor> mod 60
        \<and> int (nat_of_digits mm) = \<lfloor>round_double 2.3\<rfloor> div 60 mod 60
        \<and> int (nat_of_digits hh) = \<lfloor>round_double 2.3\<rfloor> div 3600"
    using h by (rule mp)
  then have "\<exists>hh mm ss mmm.
          format_time 2.3 = hh @ '':'' @ mm @ '':'' @ ss @ ''.'' @ mmm
        \<and> 2 \<le> length hh \<and> length mm = 2 \<and> length ss = 2 \<and> length mmm = 3
        \<and> list_all is_digit (hh @ mm @ ss @ mmm)
        \<and> int (nat_of_digits mmm) = 299 \<and> int (nat_of_digits ss) = 2
        \<and> int (nat_of_digits mm) = 0 \<and> int (nat_of_digits hh) = 0"
    unfolding v .
  with h show ?thesis by (rule conjI)
qed

section \<open>Properties of the timeline merge\<close>

lemma written_Nil: "written h [] = []"
  by (simp add: written_def)

lemma written_append: "written h (xs @ ys) = written h xs @ written h ys"
  by (simp add: written_def)

lemma written_Cons: "written h (e # xs) = write_data h e @ written h xs"
  by (simp add: written_def)

lemma written_cues:
  "written h (map (\<lambda>seg. Write VttFile (g seg)) segs) =
     (if h = VttFile then concat (map g segs) else [])"
  by (induction segs) (simp_all add: written_def)

lemma fold_write_cue:
  "fold (write_cue off) segs trace =
     trace @ map (\<lambda>seg. Write VttFile
       (cue_text (off + seg_start seg) (off + seg_end seg) (seg_text seg))) segs"
  by (induction segs arbitrary: trace) (simp_all add: write_cue_def)

lemma is_valid_audio_eq:
  "is_valid_audio env f trace = (decodable env f, trace @ [Decode f])"
  by (simp add: is_valid_audio_def decodable_def)

lemma get_audio_duration_eq:
  "get_audio_duration env f trace = (duration_of env f, trace @ [Probe f])"
  by (simp add: get_audio_duration_def duration_of_def)

lemma merge_clip_undecodable:
  "\<not> decodable env f \<Longrightarrow> merge_clip env (i, f) s = s\<lparr>effects := effects s @ [Decode f]\<rparr>"
  by (simp add: merge_clip_def is_valid_audio_eq)

lemma merge_clip_short:
  "decodable env f \<Longrightarrow> duration_of env f < 1 \<Longrightarrow>
     merge_clip env (i, f) s = s\<lparr>effects := effects s @ [Decode f, Probe f]\<rparr>"
  by (simp add: merge_clip_def is_valid_audio_eq get_audio_duration_eq)

lemma merge_clip_silent:
  "decodable env f \<Longrightarrow> \<not> duration_of env f < 1 \<Longrightarrow>
   is_silent_transcription (full_text (whisper_transcribe env f)) \<Longrightarrow>
     merge_clip env (i, f) s = s\<lparr>effects := effects s @ [Decode f, Probe f, Transcribe f]\<rparr>"
  by (simp add: merge_clip_def is_valid_audio_eq get_audio_duration_eq Let_def)

lemma merge_clip_included:
  "included env f \<Longrightarrow>
     merge_clip env (i, f) s =
       \<lparr>current_time = current_time s + duration_of env f,
        effects = effects s
          @ [Decode f, Probe f, Transcribe f,
             Write TxtFile (slide_block i (full_text (whisper_transcribe env f)))]
          @ map (\<lambda>seg. Write VttFile
               (cue_text (current_time s + seg_start seg) (current_time s + seg_end seg)
                  (seg_text seg)))
              (segments (whisper_transcribe env f))\<rparr>"
  by (simp add: merge_clip_def is_valid_audio_eq get_audio_duration_eq Let_def included_def
      fold_write_cue)

lemma merge_clip_excluded_time:
  "\<not> included env f \<Longrightarrow> current_time (merge_clip env (i, f) s) = current_time s"
  unfolding included_def
  by (cases "decodable env f"; cases "duration_of env f < 1")
     (simp_all add: merge_clip_undecodable merge_clip_short merge_clip_silent)

lemma merge_clip_excluded_written:
  "\<not> included env f \<Longrightarrow> written h (effects (merge_clip env (i, f) s)) = written h (effects s)"
  unfolding included_def
  by (cases "decodable env f"; cases "duration_of env f < 1")
     (simp_all add: merge_clip_undecodable merge_clip_short merge_clip_silent
        written_append written_Cons written_Nil)






lemma fold_merge_time:
  "current_time (fold (merge_clip env) ifs s) =
     current_time s + sum_list (map (duration_of env) (filter (included env) (map snd ifs)))"
proof (induction ifs arbitrary: s)
  case Nil
  then show ?case by simp
next
  case (Cons x ifs)
  obtain i f where x: "x = (i, f)" by (cases x)
  show ?case
    by (cases "included env f")
       (simp_all add: Cons.IH x merge_clip_included merge_clip_excluded_time)
qed

lemma offset_of_sum:
  "offset_of env fs k = sum_list (map (duration_of env) (filter (included env) (take k fs)))"
proof -
  have "map snd (take k (enumerate 1 fs)) = take k fs"
    by (simp add: take_map[symmetric])
  then show ?thesis
    by (simp add: offset_of_def loop_state_def fold_merge_time merge_start_def Let_def)
qed

lemma loop_state_time: "current_time (loop_state env fs out name k) = offset_of env fs k"
proof -
  have "map snd (take k (enumerate 1 fs)) = take k fs"
    by (simp add: take_map[symmetric])
  then show ?thesis
    by (simp add: offset_of_sum loop_state_def fold_merge_time merge_start_def Let_def)
qed

lemma included_duration: "included env f \<Longrightarrow> 1 \<le> duration_of env f"
  by (simp add: included_def)

lemma included_sum_nonneg:
  "0 \<le> sum_list (map (duration_of env) (filter (included env) xs))"
  by (induction xs) (auto dest: included_duration)

lemma included_sum_zero_iff:
  "sum_list (map (duration_of env) (filter (included env) xs)) = 0
     \<longleftrightarrow> filter (included env) xs = []"
proof (induction xs)
  case Nil
  then show ?case by simp
next
  case (Cons x xs)
  show ?case
  proof (cases "included env x")
    case True
    have "0 \<le> sum_list (map (duration_of env) (filter (included env) xs))"
      by (rule included_sum_nonneg)
    with True included_duration[OF True] show ?thesis by simp
  next
    case False
    with Cons show ?thesis by simp
  qed
qed

lemma take_split:
  "i < j \<Longrightarrow> j \<le> length xs \<Longrightarrow>
     take j xs = take i xs @ xs ! i # take (j - Suc i) (drop (Suc i) xs)"
proof -
  assume ij: "i < j" and j: "j \<le> length xs"
  have "take j xs = take (Suc i + (j - Suc i)) xs" using ij by simp
  also have "\<dots> = take (Suc i) xs @ take (j - Suc i) (drop (Suc i) xs)"
    by (rule take_add)
  also have "take (Suc i) xs = take i xs @ [xs ! i]"
    using ij j by (simp add: take_Suc_conv_app_nth)
  finally show ?thesis by simp
qed

lemma between_none:
  "i < j \<Longrightarrow> j \<le> length xs \<Longrightarrow>
     filter P (take (j - Suc i) (drop (Suc i) xs)) = [] \<longleftrightarrow> (\<forall>k. i < k \<and> k < j \<longrightarrow> \<not> P (xs ! k))"
proof -
  assume ij: "i < j" and j: "j \<le> length xs"
  let ?b = "take (j - Suc i) (drop (Suc i) xs)"
  have len: "length ?b = j - Suc i" using ij j by simp
  have nth: "?b ! m = xs ! (Suc i + m)" if "m < j - Suc i" for m
    using that ij j by simp
  have "filter P ?b = [] \<longleftrightarrow> (\<forall>m < length ?b. \<not> P (?b ! m))"
    by (simp only: filter_empty_conv all_set_conv_all_nth)
  also have "\<dots> \<longleftrightarrow> (\<forall>m < j - Suc i. \<not> P (xs ! (Suc i + m)))"
    unfolding len using nth by auto
  also have "\<dots> \<longleftrightarrow> (\<forall>k. i < k \<and> k < j \<longrightarrow> \<not> P (xs ! k))"
  proof
    assume a: "\<forall>m < j - Suc i. \<not> P (xs ! (Suc i + m))"
    show "\<forall>k. i < k \<and> k < j \<longrightarrow> \<not> P (xs ! k)"
    proof (intro allI impI)
      fix k assume k: "i < k \<and> k < j"
      then have "k - Suc i < j - Suc i" by arith
      with a have "\<not> P (xs ! (Suc i + (k - Suc i)))" by blast
      with k show "\<not> P (xs ! k)" by simp
    qed
  next
    assume a: "\<forall>k. i < k \<and> k < j \<longrightarrow> \<not> P (xs ! k)"
    show "\<forall>m < j - Suc i. \<not> P (xs ! (Suc i + m))"
    proof (intro allI impI)
      fix m assume "m < j - Suc i"
      then have "i < Suc i + m \<and> Suc i + m < j" by arith
      with a show "\<not> P (xs ! (Suc i + m))" by blast
    qed
  qed
  finally show ?thesis .
qed

text \<open>
  Claim C5, as amended. For two included clips \<open>i\<close> before \<open>j\<close>, the offset of \<open>j\<close> is at least
  the offset of \<open>i\<close> plus the duration of \<open>i\<close>, with equality exactly when no clip strictly
  between them is included (skipped clips between them do not matter). So the offsets of
  the included clips increase strictly in the order of the list, and a cue of the later clip
  that starts at or after its clip's zero lies at or after every cue of the earlier clip
  that starts within that clip's duration. The offset is the value of \<^verbatim>\<open>current_time\<close> in
  the run, whatever the output paths.
\<close>

theorem offset_monotone:
  assumes ij: "i < j" and j: "j < length audio_files"
    and inc_i: "included env (audio_files ! i)" and inc_j: "included env (audio_files ! j)"
  shows "offset_of env audio_files i + duration_of env (audio_files ! i)
           \<le> offset_of env audio_files j
     \<and> (offset_of env audio_files j
           = offset_of env audio_files i + duration_of env (audio_files ! i)
         \<longleftrightarrow> (\<forall>k. i < k \<and> k < j \<longrightarrow> \<not> included env (audio_files ! k)))
     \<and> offset_of env audio_files i < offset_of env audio_files j
     \<and> (\<forall>t_i t_j. t_i \<le> duration_of env (audio_files ! i) \<and> 0 \<le> t_j \<longrightarrow>
           offset_of env audio_files i + t_i \<le> offset_of env audio_files j + t_j)
     \<and> current_time (loop_state env audio_files out name i) = offset_of env audio_files i
     \<and> current_time (loop_state env audio_files out name j) = offset_of env audio_files j"
proof -
  let ?between = "take (j - Suc i) (drop (Suc i) audio_files)"
  let ?extra = "sum_list (map (duration_of env) (filter (included env) ?between))"
  have split: "take j audio_files = take i audio_files @ audio_files ! i # ?between"
    using ij j by (simp add: take_split)
  have eq: "offset_of env audio_files j
      = offset_of env audio_files i + duration_of env (audio_files ! i) + ?extra"
    using inc_i by (simp add: offset_of_sum split)
  have extra0: "0 \<le> ?extra" by (rule included_sum_nonneg)
  have extra_iff: "?extra = 0 \<longleftrightarrow> (\<forall>k. i < k \<and> k < j \<longrightarrow> \<not> included env (audio_files ! k))"
    using ij j by (simp add: included_sum_zero_iff between_none)
  have d: "1 \<le> duration_of env (audio_files ! i)" using inc_i by (rule included_duration)
  have c1: "offset_of env audio_files i + duration_of env (audio_files ! i)
           \<le> offset_of env audio_files j"
    using eq extra0 by simp
  have c2: "offset_of env audio_files j
           = offset_of env audio_files i + duration_of env (audio_files ! i)
         \<longleftrightarrow> (\<forall>k. i < k \<and> k < j \<longrightarrow> \<not> included env (audio_files ! k))"
    using eq extra_iff by simp
  have c3: "offset_of env audio_files i < offset_of env audio_files j"
    using c1 d by simp
  have c4: "\<forall>t_i t_j. t_i \<le> duration_of env (audio_files ! i) \<and> 0 \<le> t_j \<longrightarrow>
           offset_of env audio_files i + t_i \<le> offset_of env audio_files j + t_j"
    using c1 by auto
  from c1 c2 c3 c4 show ?thesis by (simp add: loop_state_time)
qed

lemma scenario_decodable: "decodable scenario_env p"
  by (simp add: decodable_def is_valid_audio_def scenario_env_def)

lemma scenario_durations:
  "duration_of scenario_env ''a.m4a'' = 2" "duration_of scenario_env ''b.m4a'' = 1 / 2"
  "duration_of scenario_env ''c.m4a'' = 3"
  by (simp_all add: duration_of_def get_audio_duration_def scenario_env_def)

lemma scenario_texts:
  "whisper_transcribe scenario_env ''a.m4a'' =
     \<lparr>full_text = ''hello'',
      segments = [\<lparr>seg_start = 0, seg_end = 3 / 2, seg_text = ''hello''\<rparr>]\<rparr>"
  "whisper_transcribe scenario_env ''c.m4a'' =
     \<lparr>full_text = ''world'',
      segments = [\<lparr>seg_start = 1 / 2, seg_end = 5 / 2, seg_text = ''world''\<rparr>]\<rparr>"
  by (simp_all add: scenario_env_def)

lemma not_silent_hello: "\<not> is_silent_transcription ''hello''" "\<not> is_silent_transcription ''world''"
  by (simp_all add: is_silent_transcription_def strip_def py_isspace_def)

lemma scenario_included:
  "included scenario_env ''a.m4a''" "\<not> included scenario_env ''b.m4a''"
  "included scenario_env ''c.m4a''"
  by (simp_all add: included_def scenario_decodable scenario_durations scenario_texts
      not_silent_hello)

lemma scenario_nth:
  "scenario_files ! 0 = ''a.m4a''" "scenario_files ! 1 = ''b.m4a''"
  "scenario_files ! 2 = ''c.m4a''" "length scenario_files = 3"
  "scenario_files ! Suc 0 = ''b.m4a''"
  by (simp_all add: scenario_files_def)

lemma scenario_offsets:
  "offset_of scenario_env scenario_files 0 = 0" "offset_of scenario_env scenario_files 1 = 2"
  "offset_of scenario_env scenario_files 2 = 2" "offset_of scenario_env scenario_files 3 = 5"
  by (simp_all add: offset_of_sum scenario_files_def scenario_included scenario_durations
      numeral_2_eq_2 numeral_3_eq_3)

text \<open>The theorem on the scenario's first and third clip.\<close>

theorem offset_monotone_witness:
  "(0::nat) < 2 \<and> 2 < length scenario_files
   \<and> included scenario_env (scenario_files ! 0) \<and> included scenario_env (scenario_files ! 2)
   \<and> offset_of scenario_env scenario_files 0 + duration_of scenario_env (scenario_files ! 0)
        \<le> offset_of scenario_env scenario_files 2
   \<and> offset_of scenario_env scenario_files 0 < offset_of scenario_env scenario_files 2"
proof -
  have h: "(0::nat) < 2" "2 < length scenario_files"
    "included scenario_env (scenario_files ! 0)" "included scenario_env (scenario_files ! 2)"
    by (simp_all add: scenario_nth scenario_included)
  from offset_monotone[OF h, of "[]" "[]"] h show ?thesis by simp
qed

text \<open>
  In the scenario the offset of the third clip equals the offset of the first plus its
  duration, although the clip between them was skipped: equality does not need that no clip
  between was skipped.
\<close>

theorem offset_equality_counterexample:
  "included scenario_env (scenario_files ! 0) \<and> included scenario_env (scenario_files ! 2)
   \<and> \<not> included scenario_env (scenario_files ! 1)
   \<and> offset_of scenario_env scenario_files 2
        = offset_of scenario_env scenario_files 0 + duration_of scenario_env (scenario_files ! 0)"
  by (simp add: scenario_nth scenario_included scenario_offsets scenario_durations)



lemma fold_merge_txt:
  "written TxtFile (effects (fold (merge_clip env) (enumerate n fs) s)) =
     written TxtFile (effects s)
     @ concat (map (\<lambda>k. if included env (fs ! k)
                          then slide_block (n + k) (full_text (whisper_transcribe env (fs ! k)))
                          else [])
                 [0..<length fs])"
proof (induction fs arbitrary: n s)
  case Nil
  then show ?case by simp
next
  case (Cons f fs)
  have idx: "[0..<length (f # fs)] = 0 # map Suc [0..<length fs]"
    by (simp add: upt_conv_Cons map_Suc_upt del: upt_Suc)
  show ?case
  proof (cases "included env f")
    case True
    then show ?thesis
      unfolding idx
      by (simp add: Cons.IH merge_clip_included written_append written_Cons written_Nil
          written_cues comp_def cong: if_cong)
  next
    case False
    then show ?thesis
      unfolding idx
      by (simp add: Cons.IH merge_clip_excluded_written comp_def cong: if_cong)
  qed
qed

lemma written_start:
  "written TxtFile (effects (merge_start out name)) = []"
  "written VttFile (effects (merge_start out name)) = ''WEBVTT\<newline>\<newline>''"
  by (simp_all add: merge_start_def Let_def written_def)

lemma merged_txt:
  "written TxtFile (effects (transcribe_and_merge env audio_files out name)) =
     concat (map (\<lambda>k. if included env (audio_files ! k)
                        then slide_block (Suc k)
                               (full_text (whisper_transcribe env (audio_files ! k)))
                        else [])
               [0..<length audio_files])"
  by (simp add: transcribe_and_merge_def fold_merge_txt written_start cong: if_cong)

lemma scenario_txt:
  "written TxtFile (effects (transcribe_and_merge scenario_env scenario_files out name))
     = slide_block 1 ''hello'' @ slide_block 3 ''world''"
  by (simp add: merged_txt scenario_nth upt_rec scenario_included scenario_texts
      numeral_3_eq_3[symmetric] numeral_2_eq_2[symmetric])

text \<open>
  Claim C2, as amended. The text file holds exactly one block per included clip, in the
  order of the candidate list, and the block of the clip at position \<open>k\<close> (counted from 0) is
  labelled \<open>k + 1\<close>: the label is the clip's 1-based position among all candidates, skipped
  ones counted.
\<close>

theorem transcript_blocks:
  "written TxtFile (effects (transcribe_and_merge env audio_files out name)) =
     concat (map (\<lambda>k. if included env (audio_files ! k)
                        then slide_block (Suc k)
                               (full_text (whisper_transcribe env (audio_files ! k)))
                        else [])
               [0..<length audio_files])"
  proof -
  have "written TxtFile
          (effects (fold (merge_clip env) (enumerate 1 audio_files) (merge_start out name)))
      = written TxtFile (effects (merge_start out name))
        @ concat (map (\<lambda>k. if included env (audio_files ! k)
                             then slide_block (1 + k)
                                    (full_text (whisper_transcribe env (audio_files ! k)))
                             else [])
                    [0..<length audio_files])"
    by (rule fold_merge_txt)
  then show ?thesis
    by (simp add: transcribe_and_merge_def written_start cong: if_cong)
qed

text \<open>The theorem on the scenario: the two blocks carry the labels 1 and 3.\<close>

theorem transcript_blocks_witness:
  "written TxtFile (effects (transcribe_and_merge scenario_env scenario_files ''out'' ''deck''))
     = slide_block 1 ''hello'' @ slide_block 3 ''world''"
  using transcript_blocks[of scenario_env scenario_files "''out''" "''deck''"]
  by (simp add: scenario_nth upt_rec scenario_included scenario_texts
      numeral_3_eq_3[symmetric] numeral_2_eq_2[symmetric])

text \<open>
  For the three clips of the scenario, the second excluded for its short duration, the text
  file is labelled 1 and 3, not 1 and 2.
\<close>

theorem transcript_labels_counterexample:
  "duration_of scenario_env (scenario_files ! 1) < 1
   \<and> written TxtFile (effects (transcribe_and_merge scenario_env scenario_files ''out'' ''deck''))
       = ''Slide 1:\<newline>hello\<newline>\<newline>Slide 3:\<newline>world\<newline>\<newline>''
   \<and> written TxtFile (effects (transcribe_and_merge scenario_env scenario_files ''out'' ''deck''))
       \<noteq> ''Slide 1:\<newline>hello\<newline>\<newline>Slide 2:\<newline>world\<newline>\<newline>''"
  by (simp add: scenario_txt scenario_nth scenario_durations
      slide_block_def str_nat.simps digit_char_def)

subsection \<open>A failing probe\<close>

lemma probe_failed_duration:
  "ffmpeg_probe env f = ProbeProcessError \<or> ffmpeg_probe env f = ProbeMissingDuration
     \<or> ffmpeg_probe env f = ProbeMalformedDuration \<Longrightarrow>
   get_audio_duration env f trace = (0, trace @ [Probe f])"
  by (auto simp: get_audio_duration_def)

lemma fold_merge_vtt_indep:
  "map snd ifs = map snd ifs' \<Longrightarrow> current_time s = current_time s' \<Longrightarrow>
   written VttFile (effects s) = written VttFile (effects s') \<Longrightarrow>
     written VttFile (effects (fold (merge_clip env) ifs s))
       = written VttFile (effects (fold (merge_clip env) ifs' s'))"
proof (induction ifs arbitrary: ifs' s s')
  case Nil
  then show ?case by simp
next
  case (Cons x ifs)
  from Cons.prems(1) obtain y rest where ifs': "ifs' = y # rest" and
    snd_eq: "snd x = snd y" and rest: "map snd ifs = map snd rest"
    by (cases ifs') auto
  obtain i f where x: "x = (i, f)" by (cases x)
  obtain j where y: "y = (j, f)" using snd_eq x by (cases y) auto
  have t: "current_time (merge_clip env (i, f) s) = current_time (merge_clip env (j, f) s')"
    using Cons.prems(2)
    by (cases "included env f") (simp_all add: merge_clip_included merge_clip_excluded_time)
  have w: "written VttFile (effects (merge_clip env (i, f) s))
      = written VttFile (effects (merge_clip env (j, f) s'))"
    using Cons.prems(2,3)
    by (cases "included env f")
       (simp_all add: merge_clip_included merge_clip_excluded_written written_append
          written_Cons written_Nil written_cues)
  show ?case
    unfolding ifs' x y using Cons.IH[OF rest t w] by simp
qed

lemma merge_skip_clip:
  assumes "\<not> included env f"
  shows "written VttFile (effects (transcribe_and_merge env (xs @ f # ys) out name))
           = written VttFile (effects (transcribe_and_merge env (xs @ ys) out name))"
    and "current_time (transcribe_and_merge env (xs @ f # ys) out name)
           = current_time (transcribe_and_merge env (xs @ ys) out name)"
proof -
  let ?s = "fold (merge_clip env) (enumerate 1 xs) (merge_start out name)"
  let ?s1 = "merge_clip env (Suc (length xs), f) ?s"
  have run1: "transcribe_and_merge env (xs @ f # ys) out name
      = fold (merge_clip env) (enumerate (Suc (Suc (length xs))) ys) ?s1"
    by (simp add: transcribe_and_merge_def enumerate_append_eq)
  have run2: "transcribe_and_merge env (xs @ ys) out name
      = fold (merge_clip env) (enumerate (Suc (length xs)) ys) ?s"
    by (simp add: transcribe_and_merge_def enumerate_append_eq)
  have t: "current_time ?s1 = current_time ?s"
    using assms by (rule merge_clip_excluded_time)
  have w: "written VttFile (effects ?s1) = written VttFile (effects ?s)"
    using assms by (rule merge_clip_excluded_written)
  have m: "map snd (enumerate (Suc (Suc (length xs))) ys) = map snd (enumerate (Suc (length xs)) ys)"
    by simp
  show "written VttFile (effects (transcribe_and_merge env (xs @ f # ys) out name))
           = written VttFile (effects (transcribe_and_merge env (xs @ ys) out name))"
    unfolding run1 run2 using m t w by (rule fold_merge_vtt_indep)
  show "current_time (transcribe_and_merge env (xs @ f # ys) out name)
           = current_time (transcribe_and_merge env (xs @ ys) out name)"
  proof -
    have a: "current_time (fold (merge_clip env) (enumerate (Suc (Suc (length xs))) ys) ?s1)
        = current_time ?s1 + sum_list (map (duration_of env) (filter (included env) ys))"
      by (simp only: fold_merge_time map_snd_enumerate)
    have b: "current_time (fold (merge_clip env) (enumerate (Suc (length xs)) ys) ?s)
        = current_time ?s + sum_list (map (duration_of env) (filter (included env) ys))"
      by (simp only: fold_merge_time map_snd_enumerate)
    show ?thesis unfolding run1 run2 a b t ..
  qed
qed

text \<open>
  Claim C6. When the probe fails for a clip, in any of the three ways, \<^verbatim>\<open>get_audio_duration\<close>
  returns 0, the clip is not included, and the pass of the loop over it changes neither the
  offset nor the two files and calls the engine not at all: it adds the decoding and, for a
  decodable clip, the probe to the trace. The run goes on: the cue file and the final offset
  of a document are the same as if the clip were not in the list.
\<close>

theorem probe_failure_excludes:
  assumes "ffmpeg_probe env f = ProbeProcessError \<or> ffmpeg_probe env f = ProbeMissingDuration
     \<or> ffmpeg_probe env f = ProbeMalformedDuration"
  shows "fst (get_audio_duration env f trace) = 0
     \<and> \<not> included env f
     \<and> current_time (merge_clip env (i, f) s) = current_time s
     \<and> written TxtFile (effects (merge_clip env (i, f) s)) = written TxtFile (effects s)
     \<and> written VttFile (effects (merge_clip env (i, f) s)) = written VttFile (effects s)
     \<and> effects (merge_clip env (i, f) s)
         = effects s @ (if decodable env f then [Decode f, Probe f] else [Decode f])
     \<and> written VttFile (effects (transcribe_and_merge env (xs @ f # ys) out name))
         = written VttFile (effects (transcribe_and_merge env (xs @ ys) out name))
     \<and> current_time (transcribe_and_merge env (xs @ f # ys) out name)
         = current_time (transcribe_and_merge env (xs @ ys) out name)"
proof -
  have d0: "duration_of env f = 0"
    using assms by (simp add: duration_of_def probe_failed_duration)
  then have short: "duration_of env f < 1" by simp
  then have exc: "\<not> included env f" by (simp add: included_def)
  have eff: "effects (merge_clip env (i, f) s)
         = effects s @ (if decodable env f then [Decode f, Probe f] else [Decode f])"
    using short by (simp add: merge_clip_undecodable merge_clip_short)
  have c1: "fst (get_audio_duration env f trace) = 0"
    using assms by (simp add: probe_failed_duration)
  note c3 = merge_clip_excluded_time[OF exc, of i s]
  note c4 = merge_clip_excluded_written[OF exc, of TxtFile i s]
  note c5 = merge_clip_excluded_written[OF exc, of VttFile i s]
  note c7 = merge_skip_clip(1)[OF exc, of xs ys out name]
  note c8 = merge_skip_clip(2)[OF exc, of xs ys out name]
  from c1 exc c3 c4 c5 eff c7 c8 show ?thesis
    by (intro conjI)
qed


text \<open>The theorem on the scenario whose second clip has no duration in its metadata.\<close>

theorem probe_failure_excludes_witness:
  "ffmpeg_probe failing_probe_env ''b.m4a'' = ProbeMissingDuration
   \<and> fst (get_audio_duration failing_probe_env ''b.m4a'' []) = 0
   \<and> \<not> included failing_probe_env ''b.m4a''
   \<and> current_time (merge_clip failing_probe_env (2, ''b.m4a'') (merge_start ''out'' ''deck'')) = 0
   \<and> current_time (transcribe_and_merge failing_probe_env [''a.m4a'', ''b.m4a'', ''c.m4a''] ''out'' ''deck'')
       = current_time (transcribe_and_merge failing_probe_env [''a.m4a'', ''c.m4a''] ''out'' ''deck'')"
proof -
  have h: "ffmpeg_probe failing_probe_env ''b.m4a'' = ProbeMissingDuration"
    by (simp add: failing_probe_env_def)
  then have h': "ffmpeg_probe failing_probe_env ''b.m4a'' = ProbeProcessError
     \<or> ffmpeg_probe failing_probe_env ''b.m4a'' = ProbeMissingDuration
     \<or> ffmpeg_probe failing_probe_env ''b.m4a'' = ProbeMalformedDuration"
    by simp
  have s0: "current_time (merge_start ''out'' ''deck'') = 0"
    by (simp add: merge_start_def Let_def)
  from probe_failure_excludes[OF h', of "[]" 2 "merge_start ''out'' ''deck''" "[''a.m4a'']"
      "[''c.m4a'']" "''out''" "''deck''"] h s0
  show ?thesis by simp
qed

subsection \<open>The order of the collaborator calls\<close>

lemma decode_first_iff:
  "decode_first env tr \<longleftrightarrow> (\<forall>k<length tr. \<forall>p.
        (tr ! k = Probe p \<longrightarrow> 1 \<le> k \<and> tr ! (k - 1) = Decode p \<and> decodable env p)
      \<and> (tr ! k = Transcribe p \<longrightarrow>
            2 \<le> k \<and> tr ! (k - 1) = Probe p \<and> tr ! (k - 2) = Decode p \<and> decodable env p))"
  by (auto simp: decode_first_def list_all_iff split: effect.splits)

lemma decode_first_other:
  assumes "decode_first env tr" and "\<forall>e\<in>set ws. \<forall>p. e \<noteq> Probe p \<and> e \<noteq> Transcribe p"
  shows "decode_first env (tr @ ws)"
  unfolding decode_first_iff
proof (intro allI impI)
  fix k p assume k: "k < length (tr @ ws)"
  show "((tr @ ws) ! k = Probe p \<longrightarrow> 1 \<le> k \<and> (tr @ ws) ! (k - 1) = Decode p \<and> decodable env p)
      \<and> ((tr @ ws) ! k = Transcribe p \<longrightarrow>
            2 \<le> k \<and> (tr @ ws) ! (k - 1) = Probe p \<and> (tr @ ws) ! (k - 2) = Decode p \<and> decodable env p)"
  proof (cases "k < length tr")
    case True
    then have "k - 1 < length tr" "k - 2 < length tr" by arith+
    with True have "(tr @ ws) ! k = tr ! k" "(tr @ ws) ! (k - 1) = tr ! (k - 1)"
      "(tr @ ws) ! (k - 2) = tr ! (k - 2)"
      by (simp_all add: nth_append)
    with assms(1) True show ?thesis unfolding decode_first_iff by metis
  next
    case False
    with k have "(tr @ ws) ! k \<in> set ws" by (simp add: nth_append)
    with assms(2) show ?thesis by blast
  qed
qed

lemma decode_first_calls:
  assumes "decode_first env tr" and "decodable env f"
  shows "decode_first env (tr @ [Decode f])" "decode_first env (tr @ [Decode f, Probe f])"
    "decode_first env (tr @ [Decode f, Probe f, Transcribe f])"
proof -
  show "decode_first env (tr @ [Decode f])" using assms(1) by (rule decode_first_other) simp
  have full: "decode_first env (tr @ [Decode f, Probe f, Transcribe f])"
    unfolding decode_first_iff
  proof (intro allI impI)
    fix k p assume k: "k < length (tr @ [Decode f, Probe f, Transcribe f])"
    let ?t = "tr @ [Decode f, Probe f, Transcribe f]"
    show "(?t ! k = Probe p \<longrightarrow> 1 \<le> k \<and> ?t ! (k - 1) = Decode p \<and> decodable env p)
      \<and> (?t ! k = Transcribe p \<longrightarrow>
            2 \<le> k \<and> ?t ! (k - 1) = Probe p \<and> ?t ! (k - 2) = Decode p \<and> decodable env p)"
    proof (cases "k < length tr")
      case True
      then have "k - 1 < length tr" "k - 2 < length tr" by arith+
      with True have "?t ! k = tr ! k" "?t ! (k - 1) = tr ! (k - 1)" "?t ! (k - 2) = tr ! (k - 2)"
        by (simp_all add: nth_append)
      with assms(1) True show ?thesis unfolding decode_first_iff by metis
    next
      case False
      with k have "k = length tr \<or> k = length tr + 1 \<or> k = length tr + 2" by auto
      then show ?thesis
        using assms(2) by (auto simp: nth_append)
    qed
  qed
  then show "decode_first env (tr @ [Decode f, Probe f, Transcribe f])" .
  have "decode_first env (tr @ [Decode f, Probe f])"
    unfolding decode_first_iff
  proof (intro allI impI)
    fix k p assume k: "k < length (tr @ [Decode f, Probe f])"
    then have k': "k < length (tr @ [Decode f, Probe f, Transcribe f])" by simp
    have same: "(tr @ [Decode f, Probe f]) ! m = (tr @ [Decode f, Probe f, Transcribe f]) ! m"
      if "m \<le> k" for m
      using that k by (auto simp: nth_append nth_Cons')
    have "(tr @ [Decode f, Probe f]) ! k = (tr @ [Decode f, Probe f, Transcribe f]) ! k"
      "(tr @ [Decode f, Probe f]) ! (k - 1) = (tr @ [Decode f, Probe f, Transcribe f]) ! (k - 1)"
      "(tr @ [Decode f, Probe f]) ! (k - 2) = (tr @ [Decode f, Probe f, Transcribe f]) ! (k - 2)"
      by (rule same, simp)+
    with full k' show "((tr @ [Decode f, Probe f]) ! k = Probe p \<longrightarrow> 1 \<le> k \<and> (tr @ [Decode f, Probe f]) ! (k - 1) = Decode p \<and> decodable env p)
      \<and> ((tr @ [Decode f, Probe f]) ! k = Transcribe p \<longrightarrow>
            2 \<le> k \<and> (tr @ [Decode f, Probe f]) ! (k - 1) = Probe p \<and> (tr @ [Decode f, Probe f]) ! (k - 2) = Decode p \<and> decodable env p)"
      unfolding decode_first_iff by metis
  qed
  then show "decode_first env (tr @ [Decode f, Probe f])" .
qed


lemma decode_first_Nil: "decode_first env []"
  by (simp add: decode_first_def)

lemma decode_first_merge_clip:
  assumes "decode_first env (effects s)"
  shows "decode_first env (effects (merge_clip env (i, f) s))"
proof (cases "decodable env f")
  case False
  have "decode_first env (effects s @ [Decode f])"
    using assms by (rule decode_first_other) simp
  with False show ?thesis by (simp add: merge_clip_undecodable)
next
  case dec: True
  show ?thesis
  proof (cases "duration_of env f < 1")
    case True
    with dec decode_first_calls(2)[OF assms dec] show ?thesis
      by (simp add: merge_clip_short)
  next
    case long: False
    show ?thesis
    proof (cases "is_silent_transcription (full_text (whisper_transcribe env f))")
      case True
      with dec long decode_first_calls(3)[OF assms dec] show ?thesis
        by (simp add: merge_clip_silent)
    next
      case False
      with dec long have inc: "included env f" by (simp add: included_def)
      have "decode_first env ((effects s @ [Decode f, Probe f, Transcribe f])
          @ Write TxtFile (slide_block i (full_text (whisper_transcribe env f)))
            # map (\<lambda>seg. Write VttFile
               (cue_text (current_time s + seg_start seg) (current_time s + seg_end seg)
                  (seg_text seg)))
              (segments (whisper_transcribe env f)))"
        using decode_first_calls(3)[OF assms dec] by (rule decode_first_other) auto
      then show ?thesis by (simp add: merge_clip_included[OF inc])
    qed
  qed
qed

lemma decode_first_fold:
  "decode_first env (effects s) \<Longrightarrow> decode_first env (effects (fold (merge_clip env) ifs s))"
proof (induction ifs arbitrary: s)
  case Nil
  then show ?case by simp
next
  case (Cons x ifs)
  obtain i f where x: "x = (i, f)" by (cases x)
  from Cons.prems have "decode_first env (effects (merge_clip env (i, f) s))"
    by (rule decode_first_merge_clip)
  then show ?case unfolding x by (simp add: Cons.IH)
qed

lemma decode_first_start: "decode_first env (effects (merge_start out name))"
proof -
  have "decode_first env ([] @ effects (merge_start out name))"
    using decode_first_Nil by (rule decode_first_other) (simp add: merge_start_def Let_def)
  then show ?thesis by simp
qed

lemma decode_first_merge: "decode_first env (effects (transcribe_and_merge env fs out name))"
  unfolding transcribe_and_merge_def using decode_first_start by (rule decode_first_fold)

lemma fold_write_local_cue:
  "fold write_local_cue segs trace =
     trace @ map (\<lambda>seg. Write VttFile
       (cue_text (seg_start seg) (seg_end seg) (seg_text seg))) segs"
  by (induction segs arbitrary: trace) (simp_all add: write_local_cue_def)

lemma decode_first_transcribe_audio:
  assumes "decode_first env trace"
  shows "decode_first env (transcribe_audio env f out n trace)"
proof (cases "decodable env f")
  case False
  have "decode_first env (trace @ [Decode f])"
    using assms by (rule decode_first_other) simp
  with False show ?thesis by (simp add: transcribe_audio_def is_valid_audio_eq)
next
  case dec: True
  show ?thesis
  proof (cases "duration_of env f < 1")
    case True
    with dec decode_first_calls(2)[OF assms dec] show ?thesis
      by (simp add: transcribe_audio_def is_valid_audio_eq get_audio_duration_eq)
  next
    case long: False
    show ?thesis
    proof (cases "is_silent_transcription (full_text (whisper_transcribe env f))")
      case True
      with dec long decode_first_calls(3)[OF assms dec] show ?thesis
        by (simp add: transcribe_audio_def is_valid_audio_eq get_audio_duration_eq Let_def)
    next
      case False
      let ?name = "parent3_name f @ ''_slide_'' @ str_nat n"
      have "decode_first env ((trace @ [Decode f, Probe f, Transcribe f])
          @ [Open TxtFile (os_path_join out (?name @ ''.txt'')),
             Write TxtFile (full_text (whisper_transcribe env f)),
             Open VttFile (os_path_join out (?name @ ''.vtt'')),
             Write VttFile ''WEBVTT\<newline>\<newline>'']
          @ map (\<lambda>seg. Write VttFile
               (cue_text (seg_start seg) (seg_end seg) (seg_text seg)))
              (segments (whisper_transcribe env f)))"
        using decode_first_calls(3)[OF assms dec] by (rule decode_first_other) auto
      with dec long False show ?thesis
        by (simp add: transcribe_audio_def is_valid_audio_eq get_audio_duration_eq Let_def
            fold_write_local_cue)
    qed
  qed
qed

lemma decode_first_each_fold:
  "decode_first env trace \<Longrightarrow>
     decode_first env
       (fold (\<lambda>indexed trace. transcribe_audio env (snd indexed) out (fst indexed) trace)
          ifs trace)"
proof (induction ifs arbitrary: trace)
  case Nil
  then show ?case by simp
next
  case (Cons x ifs)
  from Cons.prems have "decode_first env (transcribe_audio env (snd x) out (fst x) trace)"
    by (rule decode_first_transcribe_audio)
  then show ?case by (simp add: Cons.IH)
qed

lemma decode_first_each: "decode_first env (transcribe_each env fs out)"
  unfolding transcribe_each_def using decode_first_Nil by (rule decode_first_each_fold)

lemma decode_first_never:
  assumes "decode_first env tr" and "\<not> decodable env p"
  shows "Transcribe p \<notin> set tr" and "Probe p \<notin> set tr"
  using assms unfolding decode_first_iff in_set_conv_nth by blast+

text \<open>
  Claim C8. In the trace of the merged pipeline and in the trace of the per-clip pipeline,
  every probe comes directly after the decoding of the same clip, every transcription
  directly after the probe and the decoding of the same clip, and both only for a clip whose
  decoding succeeded: a clip for which the decoder fails is neither probed nor passed to
  the engine.
\<close>

theorem decode_before_transcribe:
  assumes "tr = effects (transcribe_and_merge env audio_files out name)
     \<or> tr = transcribe_each env audio_files out"
  shows "(\<forall>k<length tr. \<forall>p.
        (tr ! k = Probe p \<longrightarrow> 1 \<le> k \<and> tr ! (k - 1) = Decode p \<and> decodable env p)
      \<and> (tr ! k = Transcribe p \<longrightarrow>
            2 \<le> k \<and> tr ! (k - 1) = Probe p \<and> tr ! (k - 2) = Decode p \<and> decodable env p))
     \<and> (\<forall>p. \<not> decodable env p \<longrightarrow> Transcribe p \<notin> set tr \<and> Probe p \<notin> set tr)"
proof -
  have d: "decode_first env tr"
    using assms decode_first_merge decode_first_each by auto
  then have "\<forall>k<length tr. \<forall>p.
        (tr ! k = Probe p \<longrightarrow> 1 \<le> k \<and> tr ! (k - 1) = Decode p \<and> decodable env p)
      \<and> (tr ! k = Transcribe p \<longrightarrow>
            2 \<le> k \<and> tr ! (k - 1) = Probe p \<and> tr ! (k - 2) = Decode p \<and> decodable env p)"
    by (simp only: decode_first_iff)
  moreover have "\<forall>p. \<not> decodable env p \<longrightarrow> Transcribe p \<notin> set tr \<and> Probe p \<notin> set tr"
    using decode_first_never[OF d] by blast
  ultimately show ?thesis by (rule conjI)
qed

lemma undecodable_b: "\<not> decodable undecodable_env ''b.m4a''"
  by (simp add: decodable_def is_valid_audio_def undecodable_env_def)

text \<open>The theorem on the scenario whose second clip the decoder rejects.\<close>

theorem decode_before_transcribe_witness:
  "\<not> decodable undecodable_env ''b.m4a''
   \<and> Transcribe ''b.m4a''
        \<notin> set (effects (transcribe_and_merge undecodable_env scenario_files ''out'' ''deck''))
   \<and> Probe ''b.m4a''
        \<notin> set (effects (transcribe_and_merge undecodable_env scenario_files ''out'' ''deck''))
   \<and> Transcribe ''b.m4a'' \<notin> set (transcribe_each undecodable_env scenario_files ''out'')"
proof -
  note a = decode_before_transcribe[of
      "effects (transcribe_and_merge undecodable_env scenario_files ''out'' ''deck'')"
      undecodable_env scenario_files "''out''" "''deck''", THEN conjunct2, rule_format,
      OF _ undecodable_b]
  note b = decode_before_transcribe[of
      "transcribe_each undecodable_env scenario_files ''out''"
      undecodable_env scenario_files "''out''" "''deck''", THEN conjunct2, rule_format,
      OF _ undecodable_b]
  from a b undecodable_b show ?thesis by simp
qed

subsection \<open>The output files\<close>

lemma opened_append: "opened h (xs @ ys) = opened h xs @ opened h ys"
  by (simp add: opened_def map_filter_def)

lemma opened_Cons:
  "opened h (Decode f # xs) = opened h xs" "opened h (Probe f # xs) = opened h xs"
  "opened h (Transcribe f # xs) = opened h xs" "opened h (Write h' s # xs) = opened h xs"
  "opened h [] = []"
  by (simp_all add: opened_def map_filter_def)

lemma opened_cues: "opened h (map (\<lambda>seg. Write VttFile (g seg)) segs) = []"
  by (induction segs) (simp_all add: opened_Cons)

lemma opened_merge_clip: "opened h (effects (merge_clip env (i, f) s)) = opened h (effects s)"
proof (cases "included env f")
  case True
  then show ?thesis by (simp add: merge_clip_included opened_append opened_Cons opened_cues)
next
  case False
  then show ?thesis
    unfolding included_def
    by (cases "decodable env f"; cases "duration_of env f < 1")
       (simp_all add: merge_clip_undecodable merge_clip_short merge_clip_silent
          opened_append opened_Cons opened_cues)
qed

lemma opened_fold:
  "opened h (effects (fold (merge_clip env) ifs s)) = opened h (effects s)"
proof (induction ifs arbitrary: s)
  case Nil
  then show ?case by simp
next
  case (Cons x ifs)
  obtain i f where x: "x = (i, f)" by (cases x)
  show ?case unfolding x by (simp add: Cons.IH opened_merge_clip)
qed

lemma prefix_merge_clip: "prefix (effects s) (effects (merge_clip env (i, f) s))"
proof (cases "included env f")
  case True
  then show ?thesis by (simp add: merge_clip_included)
next
  case False
  then show ?thesis
    unfolding included_def
    by (cases "decodable env f"; cases "duration_of env f < 1")
       (simp_all add: merge_clip_undecodable merge_clip_short merge_clip_silent)
qed

lemma prefix_fold: "prefix (effects s) (effects (fold (merge_clip env) ifs s))"
proof (induction ifs arbitrary: s)
  case Nil
  then show ?case by simp
next
  case (Cons x ifs)
  obtain i f where x: "x = (i, f)" by (cases x)
  have "prefix (effects s) (effects (merge_clip env (i, f) s))" by (rule prefix_merge_clip)
  also have "prefix \<dots> (effects (fold (merge_clip env) ifs (merge_clip env (i, f) s)))"
    by (rule Cons.IH)
  finally show ?case unfolding x by simp
qed

lemma fold_excluded_written:
  "list_all (\<lambda>x. \<not> included env (snd x)) ifs \<Longrightarrow>
     written h (effects (fold (merge_clip env) ifs s)) = written h (effects s)"
proof (induction ifs arbitrary: s)
  case Nil
  then show ?case by simp
next
  case (Cons x ifs)
  obtain i f where x: "x = (i, f)" by (cases x)
  from Cons.prems show ?case
    unfolding x by (simp add: Cons.IH merge_clip_excluded_written)
qed

lemma output_paths_differ:
  "os_path_join out (name @ ''_transcription.txt'') \<noteq> os_path_join out (name @ ''_transcription.vtt'')"
proof -
  have ne: "name @ ''_transcription.txt'' \<noteq> name @ ''_transcription.vtt''" by simp
  have pre: "prefix ''/'' (name @ ''_transcription.txt'') = prefix ''/'' (name @ ''_transcription.vtt'')"
    by (cases name) simp_all
  show ?thesis
    using ne pre by (auto simp: os_path_join_def)
qed

lemma prefix_written:
  "prefix xs ys \<Longrightarrow> prefix (written h xs) (written h ys)"
  by (auto simp: prefix_def written_append)

text \<open>
  Claim C10. For every candidate list, the run of \<^verbatim>\<open>transcribe_and_merge\<close> begins by opening
  the text file and the cue file and writing the header \<^verbatim>\<open>WEBVTT\<close> and a blank line to the
  cue file, before any collaborator is called on any clip. The two paths differ, both files
  exist at the end, and the cue file begins with the header. If every candidate is excluded,
  the document ends with a cue file that holds exactly the header and an empty text file.
\<close>

theorem artifacts_created:
  "(let run = transcribe_and_merge env audio_files output_folder original_filename;
        txt_path = os_path_join output_folder (original_filename @ ''_transcription.txt'');
        vtt_path = os_path_join output_folder (original_filename @ ''_transcription.vtt'')
    in prefix [Open TxtFile txt_path, Open VttFile vtt_path,
               Write VttFile ''WEBVTT\<newline>\<newline>''] (effects run)
     \<and> txt_path \<noteq> vtt_path
     \<and> output_files (effects run)
         = [txt_path \<mapsto> written TxtFile (effects run),
            vtt_path \<mapsto> written VttFile (effects run)]
     \<and> prefix ''WEBVTT\<newline>\<newline>'' (written VttFile (effects run))
     \<and> (list_all (\<lambda>f. \<not> included env f) audio_files \<longrightarrow>
           output_files (effects run)
             = [txt_path \<mapsto> [], vtt_path \<mapsto> ''WEBVTT\<newline>\<newline>'']))"
proof -
  let ?run = "transcribe_and_merge env audio_files output_folder original_filename"
  let ?txt = "os_path_join output_folder (original_filename @ ''_transcription.txt'')"
  let ?vtt = "os_path_join output_folder (original_filename @ ''_transcription.vtt'')"
  let ?start = "merge_start output_folder original_filename"
  have start: "effects ?start
      = [Open TxtFile ?txt, Open VttFile ?vtt, Write VttFile ''WEBVTT\<newline>\<newline>'']"
    by (simp add: merge_start_def Let_def)
  have pre: "prefix (effects ?start) (effects ?run)"
    unfolding transcribe_and_merge_def by (rule prefix_fold)
  have c1: "prefix [Open TxtFile ?txt, Open VttFile ?vtt,
               Write VttFile ''WEBVTT\<newline>\<newline>''] (effects ?run)"
    using pre unfolding start .
  have c2: "?txt \<noteq> ?vtt" by (rule output_paths_differ)
  have op: "opened h (effects ?run) = opened h (effects ?start)" for h
    unfolding transcribe_and_merge_def by (rule opened_fold)
  have "opened TxtFile (effects ?start) = [?txt]" and "opened VttFile (effects ?start) = [?vtt]"
    by (simp_all add: start opened_def map_filter_def)
  then have op_txt: "opened TxtFile (effects ?run) = [?txt]"
    and op_vtt: "opened VttFile (effects ?run) = [?vtt]"
    by (simp_all only: op)
  have c3: "output_files (effects ?run)
         = [?txt \<mapsto> written TxtFile (effects ?run), ?vtt \<mapsto> written VttFile (effects ?run)]"
    by (simp add: output_files_def op_txt op_vtt)
  have "prefix (written VttFile (effects ?start)) (written VttFile (effects ?run))"
    using pre by (rule prefix_written)
  then have c4: "prefix ''WEBVTT\<newline>\<newline>'' (written VttFile (effects ?run))"
    by (simp add: written_start)
  have c5: "output_files (effects ?run) = [?txt \<mapsto> [], ?vtt \<mapsto> ''WEBVTT\<newline>\<newline>'']"
    if all: "list_all (\<lambda>f. \<not> included env f) audio_files"
  proof -
    have "list_all (\<lambda>x. \<not> included env (snd x)) (enumerate 1 audio_files)"
    proof -
      have "snd x \<in> set audio_files" if "x \<in> set (enumerate 1 audio_files)" for x
      proof -
        from that have "snd x \<in> set (map snd (enumerate 1 audio_files))"
          by (simp only: set_map) (rule imageI)
        then show ?thesis by simp
      qed
      with all show ?thesis by (simp add: list_all_iff)
    qed
    then have "written h (effects ?run) = written h (effects ?start)" for h
      unfolding transcribe_and_merge_def by (rule fold_excluded_written)
    then show ?thesis by (simp add: c3 written_start)
  qed
  from c1 c2 c3 c4 c5 show ?thesis
    unfolding Let_def by blast
qed

text \<open>The theorem on the scenario with the probe failing on every clip.\<close>

theorem artifacts_created_witness:
  "list_all (\<lambda>f. \<not> included probe_down_env f) scenario_files
   \<and> output_files (effects (transcribe_and_merge probe_down_env scenario_files ''out'' ''deck''))
       = [''out/deck_transcription.txt'' \<mapsto> [],
          ''out/deck_transcription.vtt'' \<mapsto> ''WEBVTT\<newline>\<newline>'']"
proof -
  have d: "duration_of probe_down_env p = 0" for p
    by (simp add: duration_of_def get_audio_duration_def probe_down_env_def)
  have h: "list_all (\<lambda>f. \<not> included probe_down_env f) scenario_files"
    by (simp add: scenario_files_def included_def d)
  have p: "os_path_join ''out'' (''deck'' @ ''_transcription.txt'') = ''out/deck_transcription.txt''"
    "os_path_join ''out'' (''deck'' @ ''_transcription.vtt'') = ''out/deck_transcription.vtt''"
    by (simp_all add: os_path_join_def suffix_def)
  note t = artifacts_created[of probe_down_env scenario_files "''out''" "''deck''", unfolded Let_def,
      THEN conjunct2, THEN conjunct2, THEN conjunct2, THEN conjunct2, THEN mp, OF h]
  from t h show ?thesis unfolding p by simp
qed

section \<open>Properties of the interactive pipeline\<close>

lemma str_replace_absent:
  "old \<noteq> [] \<Longrightarrow> \<not> sublist old s \<Longrightarrow> str_replace old new s = s"
proof (induction s)
  case Nil
  then show ?case by (simp add: str_replace.simps)
next
  case (Cons c cs)
  from Cons.prems(2) have np: "\<not> prefix old (c # cs)" and ns: "\<not> sublist old cs"
    by (simp_all add: sublist_Cons_right)
  from Cons.IH[OF Cons.prems(1) ns] np Cons.prems(1) show ?case
    by (subst str_replace.simps) simp
qed

text \<open>
  Claim C9, as amended. For every audio path that ends in \<^verbatim>\<open>.mp3\<close> or \<^verbatim>\<open>.wav\<close> and in which
  \<^verbatim>\<open>.m4a\<close> does not occur, the text path and the cue path that \<^verbatim>\<open>transcribe_audio_files\<close>
  derives are the audio path itself; when the file exists and the engine returns, the pass
  of the loop leaves the cue document where the audio was.
\<close>

theorem replace_keeps_other_extensions:
  assumes "suffix ''.mp3'' abs_path \<or> suffix ''.wav'' abs_path"
    and "\<not> sublist ''.m4a'' abs_path"
  shows "str_replace ''.m4a'' ''.txt'' abs_path = abs_path
     \<and> str_replace ''.m4a'' ''.vtt'' abs_path = abs_path
     \<and> (abspath sur file = abs_path \<and> fs abs_path = Some audio
          \<and> engine sur audio = Transcribed result \<longrightarrow>
           transcribe_one sur file fs = Inr (fs(abs_path \<mapsto> vtt_document (segments result))))"
proof -
  have t: "str_replace ''.m4a'' ''.txt'' abs_path = abs_path"
    using assms(2) by (simp add: str_replace_absent)
  have v: "str_replace ''.m4a'' ''.vtt'' abs_path = abs_path"
    using assms(2) by (simp add: str_replace_absent)
  show ?thesis
    by (simp add: t v transcribe_one_def Let_def)
qed

text \<open>
  A path that ends in \<^verbatim>\<open>.mp3\<close> and holds \<^verbatim>\<open>.m4a\<close> further left: the derived paths are not
  the path itself.
\<close>

theorem replace_changes_inner_extension_counterexample:
  "suffix ''.mp3'' ''media/a.m4a.mp3''
   \<and> str_replace ''.m4a'' ''.txt'' ''media/a.m4a.mp3'' = ''media/a.txt.mp3''
   \<and> str_replace ''.m4a'' ''.txt'' ''media/a.m4a.mp3'' \<noteq> ''media/a.m4a.mp3''
   \<and> str_replace ''.m4a'' ''.vtt'' ''media/a.m4a.mp3'' \<noteq> ''media/a.m4a.mp3''"
  by (simp add: str_replace.simps suffix_def)

text \<open>
  The theorem on \<^verbatim>\<open>narration.mp3\<close>, which \<^verbatim>\<open>extract_audio_from_pptx\<close> of \<^verbatim>\<open>transcribe.py\<close>
  hands on as \<^verbatim>\<open>media/narration.mp3\<close>.
\<close>

theorem replace_keeps_other_extensions_witness:
  "suffix ''.mp3'' ''/work/media/narration.mp3''
   \<and> \<not> sublist ''.m4a'' ''/work/media/narration.mp3''
   \<and> transcribe_extract_audio_from_pptx True True [[''narration.mp3'']] = [''media/narration.mp3'']
   \<and> transcribe_audio_files work_surroundings [''media/narration.mp3'']
         [''/work/media/narration.mp3'' \<mapsto> ''ID3'']
       = Inr [''/work/media/narration.mp3''
                \<mapsto> vtt_document [\<lparr>seg_start = 0, seg_end = 3 / 2, seg_text = ''hello''\<rparr>]]"
proof -
  have h1: "suffix ''.mp3'' ''/work/media/narration.mp3'' \<or> suffix ''.wav'' ''/work/media/narration.mp3''"
    by (simp add: suffix_def)
  have h2: "\<not> sublist ''.m4a'' ''/work/media/narration.mp3''"
    by (simp add: sublist_Cons_right)
  have h3: "abspath work_surroundings ''media/narration.mp3'' = ''/work/media/narration.mp3''
      \<and> [''/work/media/narration.mp3'' \<mapsto> ''ID3''] ''/work/media/narration.mp3'' = Some ''ID3''
      \<and> engine work_surroundings ''ID3'' = Transcribed
           \<lparr>full_text = ''hello'',
            segments = [\<lparr>seg_start = 0, seg_end = 3 / 2, seg_text = ''hello''\<rparr>]\<rparr>"
    by (simp add: work_surroundings_def)
  have w: "transcribe_extract_audio_from_pptx True True [[''narration.mp3'']] = [''media/narration.mp3'']"
    by code_simp
  note t = replace_keeps_other_extensions[OF h1 h2, of work_surroundings "''media/narration.mp3''"
      "[''/work/media/narration.mp3'' \<mapsto> ''ID3'']" "''ID3''"
      "\<lparr>full_text = ''hello'',
            segments = [\<lparr>seg_start = 0, seg_end = 3 / 2, seg_text = ''hello''\<rparr>]\<rparr>",
      THEN conjunct2, THEN conjunct2, THEN mp, OF h3]
  from t h2 w show ?thesis by (simp add: suffix_def)
qed

section \<open>The extraction at concrete containers\<close>

text \<open>
  Claim C1. The claim is that every extracted entry with one of the three extensions is in
  the returned list. A container whose only entry is \<^verbatim>\<open>ppt/media/a.mp3\<close>: the entry is
  selected and extracted, and the returned list is empty. With \<^verbatim>\<open>b.m4a\<close>, \<^verbatim>\<open>a.m4a\<close> and
  \<^verbatim>\<open>c.wav\<close> the list is the two \<^verbatim>\<open>.m4a\<close> names in order, without \<^verbatim>\<open>c.wav\<close>. The function of
  the same name in \<^verbatim>\<open>transcribe.py\<close> returns the \<^verbatim>\<open>.mp3\<close> file.
\<close>

theorem mp3_entry_omitted:
  "is_audio_entry ''ppt/media/a.mp3''
   \<and> extract_audio_from_pptx [\<lparr>filename = ''ppt/media/a.mp3'', extract_result = Extracted\<rparr>]
       = Inr ([], [])
   \<and> extract_audio_from_pptx
       [\<lparr>filename = ''ppt/media/b.m4a'', extract_result = Extracted\<rparr>,
        \<lparr>filename = ''ppt/media/a.m4a'', extract_result = Extracted\<rparr>,
        \<lparr>filename = ''ppt/media/c.wav'', extract_result = Extracted\<rparr>]
       = Inr ([''a.m4a'', ''b.m4a''], [])
   \<and> transcribe_extract_audio_from_pptx True True [[''a.mp3'']] = [''media/a.mp3'']"
  by code_simp

text \<open>
  Claim C7. The claim is that of \<open>N\<close> audio entries with one corrupted, \<open>N - 1\<close> are
  candidates, the corrupted one not among them, and that the failure is never raised. A
  container with the corrupted \<^verbatim>\<open>ppt/media/a.m4a\<close> and the sound \<^verbatim>\<open>ppt/media/b.mp3\<close>: the
  corrupted entry is recorded and the extraction goes on, but the returned list is empty
  when the failed call left no file, and holds the corrupted \<^verbatim>\<open>a.m4a\<close> alone when it left
  one. With \<^verbatim>\<open>b.m4a\<close> in the place of \<^verbatim>\<open>b.mp3\<close> the one sound entry is returned when the
  failed call left no file, and both names when it left one. When the corruption shows as
  \<^verbatim>\<open>zlib.error\<close>, the function raises.
\<close>

theorem corrupted_entry_count:
  "is_audio_entry ''ppt/media/a.m4a'' \<and> is_audio_entry ''ppt/media/b.mp3''
   \<and> extract_audio_from_pptx
       [\<lparr>filename = ''ppt/media/a.m4a'', extract_result = BadZipFile False\<rparr>,
        \<lparr>filename = ''ppt/media/b.mp3'', extract_result = Extracted\<rparr>]
       = Inr ([], [''ppt/media/a.m4a''])
   \<and> extract_audio_from_pptx
       [\<lparr>filename = ''ppt/media/a.m4a'', extract_result = BadZipFile True\<rparr>,
        \<lparr>filename = ''ppt/media/b.mp3'', extract_result = Extracted\<rparr>]
       = Inr ([''a.m4a''], [''ppt/media/a.m4a''])
   \<and> extract_audio_from_pptx
       [\<lparr>filename = ''ppt/media/a.m4a'', extract_result = BadZipFile False\<rparr>,
        \<lparr>filename = ''ppt/media/b.m4a'', extract_result = Extracted\<rparr>]
       = Inr ([''b.m4a''], [''ppt/media/a.m4a''])
   \<and> extract_audio_from_pptx
       [\<lparr>filename = ''ppt/media/a.m4a'', extract_result = BadZipFile True\<rparr>,
        \<lparr>filename = ''ppt/media/b.m4a'', extract_result = Extracted\<rparr>]
       = Inr ([''a.m4a'', ''b.m4a''], [''ppt/media/a.m4a''])
   \<and> extract_audio_from_pptx
       [\<lparr>filename = ''ppt/media/a.m4a'', extract_result = ZlibError\<rparr>,
        \<lparr>filename = ''ppt/media/b.m4a'', extract_result = Extracted\<rparr>]
       = Inl (UncaughtZlibError ''ppt/media/a.m4a'')"
  by code_simp

end
